theory Spec2Isabelle
  imports Main "HOL-Library.Word" "HOL-Library.Sublist"
begin

section \<open>The git extension's entry point (extensions/git/src/main.ts)\<close>

text \<open>
  The module is asynchronous TypeScript: every function is an \<^verbatim>\<open>async\<close> function whose
  body is a sequence of awaited calls to collaborators (the git subprocess, the file
  system, the editor's window, command and configuration services). The embedding is an
  exception-and-state monad over a record of the mutable world: a computation takes the
  world and returns either the thrown value (\<open>Inl\<close>) or the result (\<open>Inr\<close>), with the
  world it leaves behind. Every effect the user or the host can observe is appended to
  a trace.

  What may throw or reject is what the source guards against or lets through on purpose:
  the git subprocess, \<^verbatim>\<open>fs.stat\<close>, the search for git and the askpass environment. The
  editor's own services (window, commands, configuration, output channel, console) and
  the constructors of the extension's objects are taken to succeed, and values have the
  types their TypeScript declarations give them.
\<close>

subsection \<open>JavaScript strings\<close>

text \<open>
  A JavaScript string is a sequence of 16-bit code units; regular expressions without
  the \<^verbatim>\<open>u\<close> flag work on code units. \<open>js\<close> embeds an ASCII literal.
\<close>

type_synonym jschar = "16 word"
type_synonym jsstring = "jschar list"

definition js :: "string \<Rightarrow> jsstring" where
  "js s = map (\<lambda>c. of_nat (of_char c)) s"

definition LF :: jschar where "LF = 0x0A"
definition CR :: jschar where "CR = 0x0D"
definition DQUOTE :: jschar where "DQUOTE = 0x22"

subsection \<open>Thrown values, results of collaborators, observable effects\<close>

text \<open>
  A thrown value: its \<^verbatim>\<open>message\<close> property (possibly undefined) and the string that
  \<^verbatim>\<open>'' + error\<close> produces.
\<close>

datatype js_error = JsError (message: "jsstring option") (rendering: jsstring)

record IExecutionResult =
  exitCode :: int
  stdout :: jsstring
  stderr :: jsstring

datatype event =
    Exec jsstring "jsstring list" "js_error + IExecutionResult"
  | ConsoleError jsstring
  | ConsoleWarn jsstring
  | ShowInformationMessage jsstring
  | ShowErrorMessage jsstring
  | ShowWarningMessage jsstring "jsstring list"
  | OutputChannelShow
  | AppendLine jsstring
  | ExecuteCommand jsstring "jsstring list"
  | RegisterCommand jsstring
  | CreateOutputChannel jsstring
  | PushDeactivateTask jsstring
  | AskpassCreated
  | ModelCreated jsstring jsstring
  | AddOutputListener
  | ProvidersCreated

text \<open>
  The world: the \<^verbatim>\<open>git\<close> section of the configuration (\<^verbatim>\<open>config.get<boolean>\<close> and
  \<^verbatim>\<open>config.get<string>\<close>; an absent key reads as undefined, \<open>None\<close>), the state of the
  external toolchain (whatever the \<^verbatim>\<open>git\<close> binary keeps between two invocations), and the
  trace of effects.
\<close>

record 'g world =
  bool_settings :: "jsstring \<Rightarrow> bool option"
  string_settings :: "jsstring \<Rightarrow> jsstring option"
  toolchain :: 'g
  trace :: "event list"

type_synonym ('a, 'g) io = "'g world \<Rightarrow> (js_error + 'a) \<times> 'g world"

definition ret :: "'a \<Rightarrow> ('a, 'g) io" where
  "ret x = (\<lambda>w. (Inr x, w))"

definition throw :: "js_error \<Rightarrow> ('a, 'g) io" where
  "throw e = (\<lambda>w. (Inl e, w))"

text \<open>\<^verbatim>\<open>const x = await m; k(x)\<close>: a rejection of \<open>m\<close> skips \<open>k\<close>.\<close>

definition await :: "('a, 'g) io \<Rightarrow> ('a \<Rightarrow> ('b, 'g) io) \<Rightarrow> ('b, 'g) io" where
  "await m k = (\<lambda>w. case m w of (Inl e, w') \<Rightarrow> (Inl e, w') | (Inr x, w') \<Rightarrow> k x w')"

text \<open>\<^verbatim>\<open>try { m } catch (err) { h(err) }\<close>\<close>

definition try_catch :: "('a, 'g) io \<Rightarrow> (js_error \<Rightarrow> ('a, 'g) io) \<Rightarrow> ('a, 'g) io" where
  "try_catch m h = (\<lambda>w. case m w of (Inl e, w') \<Rightarrow> h e w' | (Inr x, w') \<Rightarrow> (Inr x, w'))"

text \<open>\<^verbatim>\<open>await a && await b\<close>: \<open>b\<close> is not started when \<open>a\<close> resolves to false.\<close>

definition and_then :: "(bool, 'g) io \<Rightarrow> (bool, 'g) io \<Rightarrow> (bool, 'g) io" where
  "and_then a b = await a (\<lambda>r. if r then b else ret False)"

definition emit :: "event \<Rightarrow> (unit, 'g) io" where
  "emit ev = (\<lambda>w. (Inr (), w\<lparr>trace := trace w @ [ev]\<rparr>))"

text \<open>
  \<^verbatim>\<open>nls.loadMessageBundle()\<close>: without a translation bundle \<^verbatim>\<open>localize(key, message)\<close>
  is the default message.
\<close>

definition localize :: "string \<Rightarrow> jsstring \<Rightarrow> jsstring" where
  "localize key msg = msg"

subsection \<open>The toolchain and the host\<close>

text \<open>
  The \<^verbatim>\<open>Git\<close> object (class \<^verbatim>\<open>Git\<close> of \<^verbatim>\<open>./git\<close>) is a parameter: \<^verbatim>\<open>git.exec(cwd, args)\<close>
  spawns the binary, which may change the toolchain's state, and resolves to an
  execution result or rejects.
\<close>

record 'g Git =
  exec :: "jsstring \<Rightarrow> jsstring list \<Rightarrow> 'g \<Rightarrow> (js_error + IExecutionResult) \<times> 'g"

definition git_exec :: "'g Git \<Rightarrow> jsstring \<Rightarrow> jsstring list \<Rightarrow> (IExecutionResult, 'g) io" where
  "git_exec git cwd args = (\<lambda>w.
     case exec git cwd args (toolchain w) of
       (r, g') \<Rightarrow> (r, w\<lparr>toolchain := g', trace := trace w @ [Exec cwd args r]\<rparr>))"

record Stats =
  isDirectory :: bool

record Uri =
  scheme :: jsstring
  fsPath :: jsstring

record WorkspaceFolder =
  uri :: Uri

record IGit =
  path :: jsstring
  version :: jsstring

text \<open>
  What the module reads from its surroundings and never writes: the application object
  of \<^verbatim>\<open>require('electron').remote.app\<close>, \<^verbatim>\<open>fs.stat\<close>, \<^verbatim>\<open>path.join\<close>,
  \<^verbatim>\<open>workspace.workspaceFolders\<close> (undefined when no folder is open), the answer the user
  gives to a warning with the given message and items (undefined when the warning is
  dismissed), the outcome of \<^verbatim>\<open>findGit\<close> for a path hint with the candidate paths it
  reports to its callback, and the outcome of \<^verbatim>\<open>askpass.getEnv()\<close>.
\<close>

record host =
  electron_app :: jsstring
  fs_stat :: "jsstring \<Rightarrow> js_error + Stats"
  path_join :: "jsstring \<Rightarrow> jsstring \<Rightarrow> jsstring"
  workspaceFolders :: "WorkspaceFolder list option"
  user_choice :: "jsstring \<Rightarrow> jsstring list \<Rightarrow> jsstring option"
  findGit :: "jsstring option \<Rightarrow> jsstring list \<times> (js_error + IGit)"
  askpass_getEnv :: "js_error + unit"

subsection \<open>Writing one global configuration key\<close>

definition setGitGlobalConfig :: "'g Git \<Rightarrow> jsstring \<Rightarrow> jsstring \<Rightarrow> (bool, 'g) io" where
  "setGitGlobalConfig git key val =
     try_catch
       (await (git_exec git (js ''.'') [js ''config'', js ''--global'', key, val]) (\<lambda>res.
          if exitCode res \<noteq> 0 then
            await (emit (ConsoleError (js ''Fail to set git setting. Error: '' @ [LF] @ stderr res)))
              (\<lambda>_. ret False)
          else ret True))
       (\<lambda>error.
          await (emit (ConsoleError (js ''Fail to set git setting. Error: '' @ [LF] @ rendering error)))
            (\<lambda>_. ret False))"

subsection \<open>Installing the editor as git's editor, diff tool and merge tool\<close>

definition findVsCodeExeInPath :: "host \<Rightarrow> (jsstring, 'g) io" where
  "findVsCodeExeInPath h = ret (electron_app h)"

text \<open>
  \<^verbatim>\<open>vscodeExe = vscodeExe || await findVsCodeExeInPath()\<close>: an omitted argument and the
  empty string are both falsy.
\<close>

definition vscodeExe_or_find :: "host \<Rightarrow> jsstring option \<Rightarrow> (jsstring, 'g) io" where
  "vscodeExe_or_find h vscodeExe =
     (case vscodeExe of
        None \<Rightarrow> findVsCodeExeInPath h
      | Some e \<Rightarrow> if e = [] then findVsCodeExeInPath h else ret e)"

definition editor_value :: "jsstring \<Rightarrow> jsstring" where
  "editor_value vscodeExe = [DQUOTE] @ vscodeExe @ [DQUOTE] @ js '' --wait''"

definition difftool_value :: "jsstring \<Rightarrow> jsstring" where
  "difftool_value vscodeExe =
     [DQUOTE] @ vscodeExe @ [DQUOTE] @ js '' --wait --diff '' @
     [DQUOTE] @ js ''$LOCAL'' @ [DQUOTE] @ js '' '' @ [DQUOTE] @ js ''$REMOTE'' @ [DQUOTE]"

definition mergetool_value :: "jsstring \<Rightarrow> jsstring" where
  "mergetool_value vscodeExe =
     [DQUOTE] @ vscodeExe @ [DQUOTE] @ js '' --wait '' @ [DQUOTE] @ js ''$MERGED'' @ [DQUOTE]"

definition setVsCodeAsGitEditor :: "host \<Rightarrow> 'g Git \<Rightarrow> jsstring option \<Rightarrow> (bool, 'g) io" where
  "setVsCodeAsGitEditor h git vscodeExe0 =
     await (vscodeExe_or_find h vscodeExe0) (\<lambda>vscodeExe.
     await (setGitGlobalConfig git (js ''core.editor'') (editor_value vscodeExe)) (\<lambda>ok.
       if ok then
         await (emit (ShowInformationMessage (localize ''successGitEditor''
                  (js ''Visual Studio Code has been successfully set as git editor''))))
           (\<lambda>_. ret True)
       else
         await (emit (ShowErrorMessage (localize ''failGitEditor''
                  (js ''Failed to set Visual Studio Code as git editor. See OUTPUT panel form more details''))))
           (\<lambda>_. await (emit OutputChannelShow) (\<lambda>_. ret False))))"

definition setVsCodeAsGitDiffTool :: "host \<Rightarrow> 'g Git \<Rightarrow> jsstring option \<Rightarrow> (bool, 'g) io" where
  "setVsCodeAsGitDiffTool h git vscodeExe0 =
     await (vscodeExe_or_find h vscodeExe0) (\<lambda>vscodeExe.
     await (and_then (setGitGlobalConfig git (js ''difftool.vscode.cmd'') (difftool_value vscodeExe))
                     (setGitGlobalConfig git (js ''diff.tool'') (js ''vscode''))) (\<lambda>ok.
       if ok then
         await (emit (ShowInformationMessage (localize ''successDiffTool''
                  (js ''Visual Studio Code has been successfully set as diff tool''))))
           (\<lambda>_. ret True)
       else
         await (emit (ShowErrorMessage (localize ''failDiffTool''
                  (js ''Failed to set Visual Studio Code as diff tool. See OUTPUT panel form more details''))))
           (\<lambda>_. await (emit OutputChannelShow) (\<lambda>_. ret False))))"

definition setVsCodeAsGitMergeTool :: "host \<Rightarrow> 'g Git \<Rightarrow> jsstring option \<Rightarrow> (bool, 'g) io" where
  "setVsCodeAsGitMergeTool h git vscodeExe0 =
     await (vscodeExe_or_find h vscodeExe0) (\<lambda>vscodeExe.
     await (and_then (setGitGlobalConfig git (js ''mergetool.vscode.cmd'') (mergetool_value vscodeExe))
                     (setGitGlobalConfig git (js ''merge.tool'') (js ''vscode''))) (\<lambda>ok.
       if ok then
         await (emit (ShowInformationMessage (localize ''successMergeTool''
                  (js ''Visual Studio Code has been successfully set as merge tool''))))
           (\<lambda>_. ret True)
       else
         await (emit (ShowErrorMessage (localize ''failMergeTool''
                  (js ''Failed to set Visual Studio Code as merge tool. See OUTPUT panel form more details''))))
           (\<lambda>_. await (emit OutputChannelShow) (\<lambda>_. ret False))))"

definition setVsCodeAsGitTools :: "host \<Rightarrow> 'g Git \<Rightarrow> (bool, 'g) io" where
  "setVsCodeAsGitTools h git =
     await (findVsCodeExeInPath h) (\<lambda>vscodeExe.
       and_then
         (and_then (setVsCodeAsGitEditor h git (Some vscodeExe))
                   (setVsCodeAsGitDiffTool h git (Some vscodeExe)))
         (setVsCodeAsGitMergeTool h git (Some vscodeExe)))"

subsection \<open>Configuration, prompts and commands of the editor\<close>

definition config_get_bool :: "jsstring \<Rightarrow> (bool option, 'g) io" where
  "config_get_bool key = (\<lambda>w. (Inr (bool_settings w key), w))"

definition config_get_string :: "jsstring \<Rightarrow> (jsstring option, 'g) io" where
  "config_get_string key = (\<lambda>w. (Inr (string_settings w key), w))"

text \<open>\<^verbatim>\<open>config.update(key, value, true)\<close>: the global value of the setting is written.\<close>

definition config_update :: "jsstring \<Rightarrow> bool \<Rightarrow> (unit, 'g) io" where
  "config_update key b = (\<lambda>w. (Inr (), w\<lparr>bool_settings := (bool_settings w)(key := Some b)\<rparr>))"

definition showWarningMessage :: "host \<Rightarrow> jsstring \<Rightarrow> jsstring list \<Rightarrow> (jsstring option, 'g) io" where
  "showWarningMessage h msg items = (\<lambda>w.
     (Inr (user_choice h msg items), w\<lparr>trace := trace w @ [ShowWarningMessage msg items]\<rparr>))"

text \<open>\<^verbatim>\<open>commands.executeCommand\<close> is not awaited: the call is started and its outcome ignored.\<close>

definition executeCommand :: "jsstring \<Rightarrow> jsstring list \<Rightarrow> (unit, 'g) io" where
  "executeCommand command args = emit (ExecuteCommand command args)"

subsection \<open>The legacy version warning\<close>

text \<open>\<^verbatim>\<open>/^[01]/.test(s)\<close>: the first code unit is the digit 0 or the digit 1.\<close>

definition test_leading_01 :: "jsstring \<Rightarrow> bool" where
  "test_leading_01 s = (case s of [] \<Rightarrow> False | c # _ \<Rightarrow> c = 0x30 \<or> c = 0x31)"

definition checkGitVersion :: "host \<Rightarrow> IGit \<Rightarrow> (unit, 'g) io" where
  "checkGitVersion h info =
     await (config_get_bool (js ''ignoreLegacyWarning'')) (\<lambda>v.
       let shouldIgnore = (v = Some True) in
       if shouldIgnore then ret ()
       else if \<not> test_leading_01 (version info) then ret ()
       else
         let update = localize ''updateGit'' (js ''Update Git'');
             neverShowAgain = localize ''neverShowAgain'' (js ''Don't Show Again'')
         in
         await (showWarningMessage h
                  (localize ''git20'' (js ''You seem to have git '' @ version info @
                                       js '' installed. Code works best with git >= 2''))
                  [update, neverShowAgain]) (\<lambda>choice.
           if choice = Some update then
             executeCommand (js ''vscode.open'') [js ''https://git-scm.com/'']
           else if choice = Some neverShowAgain then
             config_update (js ''ignoreLegacyWarning'') True
           else ret ()))"

subsection \<open>The missing git warning\<close>

definition stat :: "host \<Rightarrow> jsstring \<Rightarrow> (Stats, 'g) io" where
  "stat h p = (\<lambda>w. (fs_stat h p, w))"

definition isGitRepository :: "host \<Rightarrow> WorkspaceFolder \<Rightarrow> (bool, 'g) io" where
  "isGitRepository h folder =
     (if scheme (uri folder) \<noteq> js ''file'' then ret False
      else
        let dotGit = path_join h (fsPath (uri folder)) (js ''.git'') in
        try_catch
          (await (stat h dotGit) (\<lambda>dotGitStat. ret (isDirectory dotGitStat)))
          (\<lambda>err. ret False))"

text \<open>
  \<^verbatim>\<open>Promise.all\<close> of promises that are all started: each runs, and the result is the list
  of their values, or the rejection of the first that rejects.
\<close>

fun promise_all :: "('a, 'g) io list \<Rightarrow> ('a list, 'g) io" where
  "promise_all [] = ret []"
| "promise_all (m # ms) = (\<lambda>w.
     case m w of (r, w1) \<Rightarrow>
       (case promise_all ms w1 of (rs, w2) \<Rightarrow>
          (case r of
             Inl e \<Rightarrow> (Inl e, w2)
           | Inr x \<Rightarrow> (case rs of Inl e \<Rightarrow> (Inl e, w2) | Inr xs \<Rightarrow> (Inr (x # xs), w2)))))"

definition warnAboutMissingGit :: "host \<Rightarrow> (unit, 'g) io" where
  "warnAboutMissingGit h =
     await (config_get_bool (js ''ignoreMissingGitWarning'')) (\<lambda>v.
       let shouldIgnore = (v = Some True) in
       if shouldIgnore then ret ()
       else
         (case workspaceFolders h of
            None \<Rightarrow> ret ()
          | Some folders \<Rightarrow>
              await (promise_all (map (isGitRepository h) folders)) (\<lambda>areGitRepositories.
                if list_all (\<lambda>isGitRepository. \<not> isGitRepository) areGitRepositories then ret ()
                else
                  let download = localize ''downloadgit'' (js ''Download Git'');
                      neverShowAgain = localize ''neverShowAgain'' (js ''Don't Show Again'')
                  in
                  await (showWarningMessage h
                           (localize ''notfound''
                              (js ''Git not found. Install it or configure it using the 'git.path' setting.''))
                           [download, neverShowAgain]) (\<lambda>choice.
                    if choice = Some download then
                      executeCommand (js ''vscode.open'') [js ''https://git-scm.com/'']
                    else if choice = Some neverShowAgain then
                      config_update (js ''ignoreMissingGitWarning'') True
                    else ret ()))))"

subsection \<open>The output log\<close>

text \<open>
  \<^verbatim>\<open>str.split(/\r?\n/mg)\<close>: the scan goes left to right; at a line feed, or at a carriage
  return directly followed by one, the piece read so far is closed and the separator
  skipped; the last piece is what remains (so the empty string gives one empty piece).
\<close>

fun split_acc :: "jsstring \<Rightarrow> jsstring \<Rightarrow> jsstring list" where
  "split_acc cur [] = [cur]"
| "split_acc cur (c # rest) =
     (if c = LF then cur # split_acc [] rest
      else (case rest of
              [] \<Rightarrow> split_acc (cur @ [c]) rest
            | d # rest' \<Rightarrow>
                if c = CR \<and> d = LF then cur # split_acc [] rest'
                else split_acc (cur @ [c]) rest))"

definition split_lines :: "jsstring \<Rightarrow> jsstring list" where
  "split_lines str = split_acc [] str"

text \<open>
  The class \<^verbatim>\<open>\s\<close>: the white space and line terminator code units of ECMAScript.
\<close>

definition is_space :: "jschar \<Rightarrow> bool" where
  "is_space c \<longleftrightarrow>
     c \<in> {0x09, 0x0A, 0x0B, 0x0C, 0x0D, 0x20, 0xA0, 0x1680, 0x2028, 0x2029, 0x202F, 0x205F,
          0x3000, 0xFEFF} \<or> (0x2000 \<le> c \<and> c \<le> 0x200A)"

text \<open>\<^verbatim>\<open>/^\s*$/.test(s)\<close>, without the multiline flag: every code unit of \<open>s\<close> is a space.\<close>

definition test_blank :: "jsstring \<Rightarrow> bool" where
  "test_blank s = list_all is_space s"

text \<open>
  \<^verbatim>\<open>lines[lines.length - 1]\<close> as \<^verbatim>\<open>RegExp.test\<close> reads it: of an empty array it is
  undefined, which \<^verbatim>\<open>test\<close> converts to the string \<^verbatim>\<open>undefined\<close>.
\<close>

definition last_line :: "jsstring list \<Rightarrow> jsstring" where
  "last_line lines = (if lines = [] then js ''undefined'' else last lines)"

function pop_blank_lines :: "jsstring list \<Rightarrow> jsstring list" where
  "pop_blank_lines lines =
     (if test_blank (last_line lines) then pop_blank_lines (butlast lines) else lines)"
  by pat_completeness auto
termination
proof (relation "measure length")
  show "wf (measure length)" by simp
next
  fix lines :: "jsstring list"
  assume b: "test_blank (last_line lines)"
  have "\<not> test_blank (js ''undefined'')"
    by (simp add: test_blank_def js_def is_space_def)
  with b have "lines \<noteq> []" by (auto simp: last_line_def)
  then show "(butlast lines, lines) \<in> measure length" by simp
qed

declare pop_blank_lines.simps [simp del]

fun join_lines :: "jsstring list \<Rightarrow> jsstring" where
  "join_lines [] = []"
| "join_lines [l] = l"
| "join_lines (l # ls) = l @ [LF] @ join_lines ls"

definition onOutput :: "jsstring \<Rightarrow> (unit, 'g) io" where
  "onOutput str =
     (let lines = pop_blank_lines (split_lines str)
      in emit (AppendLine (join_lines lines)))"

subsection \<open>Teardown\<close>

text \<open>
  \<^verbatim>\<open>for (const task of deactivateTasks) { await task(); }\<close>, over the tasks registered so
  far, in the order of registration. A task is any asynchronous action on the world.
\<close>

fun deactivate :: "(unit, 'g) io list \<Rightarrow> (unit, 'g) io" where
  "deactivate [] = ret ()"
| "deactivate (task # tasks) = await task (\<lambda>_. deactivate tasks)"

subsection \<open>Creating the model\<close>

datatype Model = Model IGit

datatype GitExtension = GitExtension "Model option"

definition createGitExtension :: "Model option \<Rightarrow> GitExtension" where
  "createGitExtension model = GitExtension model"

text \<open>
  \<^verbatim>\<open>findGit(pathHint, onLookup)\<close>: each candidate path is logged through the callback, and
  the search resolves to the toolchain found or rejects.
\<close>

definition findGit_logged :: "host \<Rightarrow> jsstring option \<Rightarrow> (IGit, 'g) io" where
  "findGit_logged h pathHint = (\<lambda>w.
     case findGit h pathHint of
       (candidates, r) \<Rightarrow>
         (r, w\<lparr>trace := trace w @
                  map (\<lambda>p. AppendLine (localize ''looking'' (js ''Looking for git in: '' @ p)))
                      candidates\<rparr>))"

definition askpass_env :: "host \<Rightarrow> (unit, 'g) io" where
  "askpass_env h = (\<lambda>w. (askpass_getEnv h, w))"

text \<open>
  The steps of \<^verbatim>\<open>createModel\<close> in the order of the source. The objects it constructs and
  the listeners it adds are collaborators: each is one event of the trace (the repository
  count sent with \<^verbatim>\<open>setContext\<close> is the model's and is left out).
\<close>

definition createModel :: "host \<Rightarrow> (Model, 'g) io" where
  "createModel h =
     await (config_get_string (js ''path'')) (\<lambda>pathHint.
     await (findGit_logged h pathHint) (\<lambda>info.
     await (emit AskpassCreated) (\<lambda>_.
     await (askpass_env h) (\<lambda>env.
     await (emit (ModelCreated (path info) (version info))) (\<lambda>_.
     await (emit (RegisterCommand (js ''git.setGitEditor''))) (\<lambda>_.
     await (emit (RegisterCommand (js ''git.setGitDiffTool''))) (\<lambda>_.
     await (emit (RegisterCommand (js ''git.setGitMergeTool''))) (\<lambda>_.
     await (emit (RegisterCommand (js ''git.setGitTools''))) (\<lambda>_.
     await (executeCommand (js ''setContext'') [js ''gitOpenRepositoryCount'']) (\<lambda>_.
     await (emit (AppendLine (localize ''using git''
              (js ''Using git '' @ version info @ js '' from '' @ path info)))) (\<lambda>_.
     await (emit AddOutputListener) (\<lambda>_.
     await (emit ProvidersCreated) (\<lambda>_.
     await (checkGitVersion h info) (\<lambda>_.
     ret (Model info)))))))))))))))"

subsection \<open>Activation\<close>

text \<open>
  A configuration change as the listeners see it: what \<^verbatim>\<open>e.affectsConfiguration\<close> answers,
  and the \<^verbatim>\<open>git\<close> section that \<^verbatim>\<open>workspace.getConfiguration\<close> reads when the event fires.
\<close>

record config_change =
  affectsConfiguration :: "jsstring \<Rightarrow> bool"
  bool_settings_then :: "jsstring \<Rightarrow> bool option"
  string_settings_then :: "jsstring \<Rightarrow> jsstring option"

text \<open>
  Modelled from the spec: \<^verbatim>\<open>filterEvent\<close> and \<^verbatim>\<open>eventToPromise\<close> of \<^verbatim>\<open>./util\<close> are not
  part of the sources at hand. An event is the list of its occurrences after the
  subscription, in order; a filtered event has the occurrences that satisfy the filter;
  the promise of an event resolves on its first occurrence, and never when there is none.
\<close>

definition filterEvent :: "'e list \<Rightarrow> ('e \<Rightarrow> bool) \<Rightarrow> 'e list" where
  "filterEvent event pred = filter pred event"

definition eventToPromise :: "'e list \<Rightarrow> 'e option" where
  "eventToPromise event = (case event of [] \<Rightarrow> None | e # _ \<Rightarrow> Some e)"

text \<open>\<^verbatim>\<open>/Git installation not found/.test(s)\<close>: the pattern occurs somewhere in \<open>s\<close>.\<close>

fun regex_search :: "jsstring \<Rightarrow> jsstring \<Rightarrow> bool" where
  "regex_search pat [] = (pat = [])"
| "regex_search pat (c # s) = (prefix pat (c # s) \<or> regex_search pat s)"

definition activate_prologue :: "(unit, 'g) io" where
  "activate_prologue =
     await (emit (CreateOutputChannel (js ''Git''))) (\<lambda>_.
     await (emit (RegisterCommand (js ''git.showOutput''))) (\<lambda>_.
     emit (PushDeactivateTask (js ''telemetryReporter.dispose''))))"

text \<open>The \<^verbatim>\<open>try\<close> statement of \<^verbatim>\<open>activate\<close>; \<open>msg\<close> is \<^verbatim>\<open>err.message || ''\<close>.\<close>

definition activate_try :: "host \<Rightarrow> (GitExtension, 'g) io" where
  "activate_try h =
     try_catch
       (await (createModel h) (\<lambda>model. ret (createGitExtension (Some model))))
       (\<lambda>err.
          let msg = (case message err of None \<Rightarrow> [] | Some m \<Rightarrow> m) in
          if \<not> regex_search (js ''Git installation not found'') msg then throw err
          else
            await (emit (ConsoleWarn msg)) (\<lambda>_.
            await (emit (AppendLine msg)) (\<lambda>_.
            await (warnAboutMissingGit h) (\<lambda>_.
            ret (createGitExtension None)))))"

text \<open>
  An activation either settles (resolves to the extension's API or rejects) or stays
  suspended at \<^verbatim>\<open>await eventToPromise(onEnabled)\<close>. \<^verbatim>\<open>!enabled\<close> holds of undefined and of
  false. When the awaited event fires, the configuration is the one of that occurrence.
\<close>

datatype 'g activation = Suspended "'g world" | Settled "(js_error + GitExtension) \<times> 'g world"

definition activate :: "host \<Rightarrow> config_change list \<Rightarrow> 'g world \<Rightarrow> 'g activation" where
  "activate h onDidChangeConfiguration w =
     (case activate_prologue w of
        (Inl e, w1) \<Rightarrow> Settled (Inl e, w1)
      | (Inr _, w1) \<Rightarrow>
          let enabled = bool_settings w1 (js ''enabled'') in
          if enabled \<noteq> Some True then
            let onConfigChange =
                  filterEvent onDidChangeConfiguration (\<lambda>e. affectsConfiguration e (js ''git''));
                onEnabled =
                  filterEvent onConfigChange (\<lambda>e. bool_settings_then e (js ''enabled'') = Some True)
            in
            (case eventToPromise onEnabled of
               None \<Rightarrow> Suspended w1
             | Some e \<Rightarrow>
                 Settled (activate_try h
                   (w1\<lparr>bool_settings := bool_settings_then e,
                       string_settings := string_settings_then e\<rparr>)))
          else Settled (activate_try h w1))"

section \<open>Notions the properties are stated with\<close>

text \<open>The events a run appended: the trace after it, without the trace before it.\<close>

definition new_events :: "'g world \<Rightarrow> 'g world \<Rightarrow> event list" where
  "new_events w w' = drop (length (trace w)) (trace w')"

text \<open>A subprocess invocation succeeded: it completed, with exit code 0.\<close>

definition succeeded :: "js_error + IExecutionResult \<Rightarrow> bool" where
  "succeeded r = (case r of Inl _ \<Rightarrow> False | Inr res \<Rightarrow> exitCode res = 0)"

text \<open>
  The configuration writes among some events: for each invocation
  \<^verbatim>\<open>git config --global key value\<close>, the key, the value and whether it succeeded.
\<close>

fun config_writes :: "event list \<Rightarrow> (jsstring \<times> jsstring \<times> bool) list" where
  "config_writes [] = []"
| "config_writes (Exec cwd [c, g, k, v] r # evs) =
     (if c = js ''config'' \<and> g = js ''--global''
      then (k, v, succeeded r) # config_writes evs
      else config_writes evs)"
| "config_writes (_ # evs) = config_writes evs"

definition write_ok :: "jsstring \<times> jsstring \<times> bool \<Rightarrow> bool" where
  "write_ok cw = snd (snd cw)"

definition write_kv :: "jsstring \<times> jsstring \<times> bool \<Rightarrow> jsstring \<times> jsstring" where
  "write_kv cw = (fst cw, fst (snd cw))"

text \<open>The executable path an installer uses, and the writes each installer is to make.\<close>

definition resolved_exe :: "host \<Rightarrow> jsstring option \<Rightarrow> jsstring" where
  "resolved_exe h vscodeExe =
     (case vscodeExe of None \<Rightarrow> electron_app h | Some e \<Rightarrow> if e = [] then electron_app h else e)"

definition editor_plan :: "jsstring \<Rightarrow> (jsstring \<times> jsstring) list" where
  "editor_plan e = [(js ''core.editor'', editor_value e)]"

definition difftool_plan :: "jsstring \<Rightarrow> (jsstring \<times> jsstring) list" where
  "difftool_plan e = [(js ''difftool.vscode.cmd'', difftool_value e), (js ''diff.tool'', js ''vscode'')]"

definition mergetool_plan :: "jsstring \<Rightarrow> (jsstring \<times> jsstring) list" where
  "mergetool_plan e = [(js ''mergetool.vscode.cmd'', mergetool_value e), (js ''merge.tool'', js ''vscode'')]"

definition tools_plan :: "jsstring \<Rightarrow> (jsstring \<times> jsstring) list" where
  "tools_plan e = editor_plan e @ difftool_plan e @ mergetool_plan e"

text \<open>
  A run of config writes with short-circuit: the computation never rejects; the writes
  it attempts are the first writes of the plan, in order; every attempt but the last
  succeeded (nothing is attempted after a failure); the result is true exactly when
  every attempt succeeded, and then the whole plan was attempted.
\<close>

definition short_circuit :: "(jsstring \<times> jsstring) list \<Rightarrow> (bool, 'g) io \<Rightarrow> bool" where
  "short_circuit plan m \<longleftrightarrow>
     (\<forall>w. \<exists>b w' evs.
        m w = (Inr b, w') \<and> trace w' = trace w @ evs \<and>
        prefix (map write_kv (config_writes evs)) plan \<and>
        list_all write_ok (butlast (config_writes evs)) \<and>
        (b \<longleftrightarrow> list_all write_ok (config_writes evs)) \<and>
        (b \<longrightarrow> map write_kv (config_writes evs) = plan))"

text \<open>
  Among some writes, every write of the key \<open>sel\<close> comes after a successful write of the
  key \<open>cmd\<close>.
\<close>

definition written_after :: "jsstring \<Rightarrow> jsstring \<Rightarrow> (jsstring \<times> jsstring \<times> bool) list \<Rightarrow> bool" where
  "written_after cmd sel cws \<longleftrightarrow>
     (\<forall>i < length cws. fst (cws ! i) = sel \<longrightarrow>
        (\<exists>j < i. fst (cws ! j) = cmd \<and> write_ok (cws ! j)))"

text \<open>
  A healthy toolchain, whose state is the global configuration (a map from keys to
  values): \<^verbatim>\<open>git config --global key value\<close> completes with exit code 0 and has set the
  key to the value.
\<close>

definition healthy :: "(jsstring \<Rightarrow> jsstring option) Git \<Rightarrow> bool" where
  "healthy git \<longleftrightarrow>
     (\<forall>cwd key val g. \<exists>res.
        exec git cwd [js ''config'', js ''--global'', key, val] g = (Inr res, g(key \<mapsto> val)) \<and>
        exitCode res = 0)"

definition write_all :: "(jsstring \<times> jsstring) list \<Rightarrow> (jsstring \<Rightarrow> jsstring option) \<Rightarrow> (jsstring \<Rightarrow> jsstring option)" where
  "write_all plan g = foldl (\<lambda>g kv. g(fst kv \<mapsto> snd kv)) g plan"

text \<open>A git that always succeeds and stores what it is told, to run the installers on.\<close>

definition obedient_git :: "(jsstring \<Rightarrow> jsstring option) Git" where
  "obedient_git = \<lparr>exec = (\<lambda>cwd args g.
     case args of
       [c, gl, k, v] \<Rightarrow> (Inr \<lparr>exitCode = 0, stdout = [], stderr = []\<rparr>, g(k \<mapsto> v))
     | _ \<Rightarrow> (Inr \<lparr>exitCode = 0, stdout = [], stderr = []\<rparr>, g))\<rparr>"

text \<open>The prompts among some events.\<close>

fun is_prompt :: "event \<Rightarrow> bool" where
  "is_prompt (ShowWarningMessage msg items) = True"
| "is_prompt _ = False"

definition prompts :: "event list \<Rightarrow> event list" where
  "prompts evs = filter is_prompt evs"

text \<open>
  A folder qualifies: its scheme is \<^verbatim>\<open>file\<close> and the \<^verbatim>\<open>.git\<close> entry under its path stats
  as a directory.
\<close>

definition qualifies :: "host \<Rightarrow> WorkspaceFolder \<Rightarrow> bool" where
  "qualifies h folder \<longleftrightarrow>
     scheme (uri folder) = js ''file'' \<and>
     (case fs_stat h (path_join h (fsPath (uri folder)) (js ''.git'')) of
        Inl err \<Rightarrow> False
      | Inr st \<Rightarrow> isDirectory st)"

text \<open>
  Teardown as the specification words it: every task runs, in the order of registration,
  whether or not an earlier one failed.
\<close>

fun teardown_spec :: "(unit, 'g) io list \<Rightarrow> 'g world \<Rightarrow> 'g world" where
  "teardown_spec [] w = w"
| "teardown_spec (task # tasks) w = teardown_spec tasks (snd (task w))"

text \<open>The installers, each with the writes it is to make.\<close>

definition installers :: "host \<Rightarrow> 'g Git \<Rightarrow> jsstring option \<Rightarrow> ((jsstring \<times> jsstring) list \<times> (bool, 'g) io) list" where
  "installers h git vscodeExe =
     [(editor_plan (resolved_exe h vscodeExe), setVsCodeAsGitEditor h git vscodeExe),
      (difftool_plan (resolved_exe h vscodeExe), setVsCodeAsGitDiffTool h git vscodeExe),
      (mergetool_plan (resolved_exe h vscodeExe), setVsCodeAsGitMergeTool h git vscodeExe),
      (tools_plan (electron_app h), setVsCodeAsGitTools h git)]"

text \<open>A computation that returns true and leaves the configuration with the plan written.\<close>

definition applies :: "(jsstring \<times> jsstring) list \<Rightarrow> (bool, jsstring \<Rightarrow> jsstring option) io \<Rightarrow> bool" where
  "applies plan m \<longleftrightarrow>
     (\<forall>w. \<exists>w'. m w = (Inr True, w') \<and> toolchain w' = write_all plan (toolchain w))"

text \<open>
  Splitting on bare or carriage-return-prefixed newlines, in other words: once the
  carriage return of every such pair is dropped, the lines are what stands between the
  line feeds.
\<close>

fun drop_cr_before_lf :: "jsstring \<Rightarrow> jsstring" where
  "drop_cr_before_lf [] = []"
| "drop_cr_before_lf [c] = [c]"
| "drop_cr_before_lf (c # d # s) =
     (if c = CR \<and> d = LF then LF # drop_cr_before_lf s else c # drop_cr_before_lf (d # s))"

text \<open>
  A configuration change lets a suspended activation go on: it affects the \<^verbatim>\<open>git\<close>
  section, and the enablement setting reads true when it fires.
\<close>

definition enables :: "config_change \<Rightarrow> bool" where
  "enables e \<longleftrightarrow> affectsConfiguration e (js ''git'') \<and> bool_settings_then e (js ''enabled'') = Some True"

text \<open>A computation that leaves the enablement setting as it was.\<close>

definition keeps_enabled :: "('a, 'g) io \<Rightarrow> bool" where
  "keeps_enabled m \<longleftrightarrow>
     (\<forall>w. bool_settings (snd (m w)) (js ''enabled'') = bool_settings w (js ''enabled''))"

section \<open>Concrete surroundings to run the module in\<close>

definition not_found_error :: js_error where
  "not_found_error =
     JsError (Some (js ''Git installation not found.'')) (js ''Error: Git installation not found.'')"

definition other_error :: js_error where
  "other_error = JsError (Some (js ''spawn EACCES'')) (js ''Error: spawn EACCES'')"

definition repo_folder :: WorkspaceFolder where
  "repo_folder = \<lparr>uri = \<lparr>scheme = js ''file'', fsPath = js ''/repo''\<rparr>\<rparr>"

definition plain_folder :: WorkspaceFolder where
  "plain_folder = \<lparr>uri = \<lparr>scheme = js ''file'', fsPath = js ''/tmp''\<rparr>\<rparr>"

text \<open>
  A host without git: the search fails, \<^verbatim>\<open>/repo/.git\<close> is a directory, any other path
  does not stat, the user dismisses every warning.
\<close>

definition host0 :: host where
  "host0 = \<lparr>
     electron_app = js ''/usr/bin/code'',
     fs_stat = (\<lambda>p. if p = js ''/repo/.git'' then Inr \<lparr>isDirectory = True\<rparr> else Inl other_error),
     path_join = (\<lambda>a b. a @ js ''/'' @ b),
     workspaceFolders = Some [plain_folder],
     user_choice = (\<lambda>msg items. None),
     findGit = (\<lambda>hint. ([js ''git''], Inl not_found_error)),
     askpass_getEnv = Inr ()\<rparr>"

text \<open>A host with git 1.9.1, and one where starting the search fails for another reason.\<close>

definition host1 :: host where
  "host1 = host0\<lparr>findGit := (\<lambda>hint. ([js ''git''], Inr \<lparr>path = js ''/usr/bin/git'', version = js ''1.9.1''\<rparr>))\<rparr>"

definition host2 :: host where
  "host2 = host0\<lparr>findGit := (\<lambda>hint. ([], Inl other_error))\<rparr>"

definition world0 :: "(jsstring \<Rightarrow> jsstring option) world" where
  "world0 = \<lparr>bool_settings = (\<lambda>k. None), string_settings = (\<lambda>k. None),
             toolchain = (\<lambda>k. None), trace = []\<rparr>"

definition world_enabled :: "(jsstring \<Rightarrow> jsstring option) world" where
  "world_enabled = world0\<lparr>bool_settings := (\<lambda>k. if k = js ''enabled'' then Some True else None)\<rparr>"

text \<open>A git that cannot write its configuration, and one that cannot be spawned.\<close>

definition refusing_git :: "(jsstring \<Rightarrow> jsstring option) Git" where
  "refusing_git = \<lparr>exec = (\<lambda>cwd args g.
     (Inr \<lparr>exitCode = 255, stdout = [], stderr = js ''error: could not lock config file''\<rparr>, g))\<rparr>"

definition unspawnable_git :: "(jsstring \<Rightarrow> jsstring option) Git" where
  "unspawnable_git = \<lparr>exec = (\<lambda>cwd args g. (Inl other_error, g))\<rparr>"

text \<open>An output of two lines with a blank line between them, and three blank lines after.\<close>

definition sample_output :: jsstring where
  "sample_output = js ''a'' @ [CR, LF, LF] @ js ''b'' @ [LF, 0x20, LF, CR, LF]"

text \<open>
  Two configuration changes of the \<^verbatim>\<open>git\<close> section: one that leaves the extension
  disabled, one that enables it.
\<close>

definition change_path :: config_change where
  "change_path = \<lparr>affectsConfiguration = (\<lambda>s. s = js ''git''),
                   bool_settings_then = (\<lambda>k. None),
                   string_settings_then = (\<lambda>k. if k = js ''path'' then Some (js ''/opt/git'') else None)\<rparr>"

definition change_enable :: config_change where
  "change_enable = \<lparr>affectsConfiguration = (\<lambda>s. s = js ''git''),
                     bool_settings_then = (\<lambda>k. if k = js ''enabled'' then Some True else None),
                     string_settings_then = (\<lambda>k. None)\<rparr>"

section \<open>Properties\<close>

subsection \<open>Runs of configuration writes\<close>

lemma config_writes_append:
  "config_writes (xs @ ys) = config_writes xs @ config_writes ys"
  by (induction xs rule: config_writes.induct) auto

lemma sgc_run:
  "setGitGlobalConfig git key val w =
     (case exec git (js ''.'') [js ''config'', js ''--global'', key, val] (toolchain w) of
        (r, g') \<Rightarrow>
          (Inr (succeeded r),
           w\<lparr>toolchain := g',
             trace := trace w @ Exec (js ''.'') [js ''config'', js ''--global'', key, val] r #
               (case r of
                  Inl error \<Rightarrow> [ConsoleError (js ''Fail to set git setting. Error: '' @ [LF] @ rendering error)]
                | Inr res \<Rightarrow> if exitCode res \<noteq> 0
                     then [ConsoleError (js ''Fail to set git setting. Error: '' @ [LF] @ stderr res)]
                     else [])\<rparr>))"
  by (simp add: setGitGlobalConfig_def try_catch_def await_def git_exec_def emit_def ret_def
      succeeded_def split: prod.splits sum.splits)

lemma sgc_short_circuit: "short_circuit [(key, val)] (setGitGlobalConfig git key val)"
  unfolding short_circuit_def
  by (auto simp: sgc_run write_ok_def write_kv_def split: prod.splits sum.splits)

lemma and_then_short_circuit:
  assumes a: "short_circuit pa a" and b: "short_circuit pb b"
  shows "short_circuit (pa @ pb) (and_then a b)"
  unfolding short_circuit_def
proof
  fix w
  from a obtain ra wa ea where A: "a w = (Inr ra, wa)" "trace wa = trace w @ ea"
    "prefix (map write_kv (config_writes ea)) pa"
    "list_all write_ok (butlast (config_writes ea))"
    "ra \<longleftrightarrow> list_all write_ok (config_writes ea)"
    "ra \<longrightarrow> map write_kv (config_writes ea) = pa"
    unfolding short_circuit_def by blast
  show "\<exists>b' w' evs. and_then a b w = (Inr b', w') \<and> trace w' = trace w @ evs \<and>
        prefix (map write_kv (config_writes evs)) (pa @ pb) \<and>
        list_all write_ok (butlast (config_writes evs)) \<and>
        (b' \<longleftrightarrow> list_all write_ok (config_writes evs)) \<and>
        (b' \<longrightarrow> map write_kv (config_writes evs) = pa @ pb)"
  proof (cases ra)
    case False
    with A show ?thesis
      by (intro exI[of _ False] exI[of _ wa] exI[of _ ea])
         (auto simp: and_then_def await_def ret_def)
  next
    case True
    from b obtain rb wb eb where B: "b wa = (Inr rb, wb)" "trace wb = trace wa @ eb"
      "prefix (map write_kv (config_writes eb)) pb"
      "list_all write_ok (butlast (config_writes eb))"
      "rb \<longleftrightarrow> list_all write_ok (config_writes eb)"
      "rb \<longrightarrow> map write_kv (config_writes eb) = pb"
      unfolding short_circuit_def by blast
    from True A B show ?thesis
      by (intro exI[of _ rb] exI[of _ wb] exI[of _ "ea @ eb"])
         (auto simp: and_then_def await_def ret_def butlast_append config_writes_append)
  qed
qed


lemma await_ret: "await (ret x) k = k x"
  by (simp add: await_def ret_def)

lemma vscodeExe_or_find_ret: "vscodeExe_or_find h exe = ret (resolved_exe h exe)"
  by (simp add: vscodeExe_or_find_def resolved_exe_def findVsCodeExeInPath_def split: option.splits)

lemma notify_short_circuit:
  assumes m: "short_circuit plan m"
    and ev: "config_writes [A] = []" "config_writes [B] = []" "config_writes [C] = []"
  shows "short_circuit plan (await m (\<lambda>ok.
           if ok then await (emit A) (\<lambda>_. ret True)
           else await (emit B) (\<lambda>_. await (emit C) (\<lambda>_. ret False))))"
  unfolding short_circuit_def
proof
  fix w
  from m obtain r w1 e1 where M: "m w = (Inr r, w1)" "trace w1 = trace w @ e1"
    "prefix (map write_kv (config_writes e1)) plan"
    "list_all write_ok (butlast (config_writes e1))"
    "r \<longleftrightarrow> list_all write_ok (config_writes e1)"
    "r \<longrightarrow> map write_kv (config_writes e1) = plan"
    unfolding short_circuit_def by blast
  let ?k = "\<lambda>ok. if ok then await (emit A) (\<lambda>_. ret True)
           else await (emit B) (\<lambda>_. await (emit C) (\<lambda>_. ret False))"
  show "\<exists>b w' evs. await m ?k w = (Inr b, w') \<and> trace w' = trace w @ evs \<and>
        prefix (map write_kv (config_writes evs)) plan \<and>
        list_all write_ok (butlast (config_writes evs)) \<and>
        (b \<longleftrightarrow> list_all write_ok (config_writes evs)) \<and>
        (b \<longrightarrow> map write_kv (config_writes evs) = plan)"
  proof (cases r)
    case True
    with M ev show ?thesis
      by (intro exI[of _ True] exI[of _ "w1\<lparr>trace := trace w1 @ [A]\<rparr>"] exI[of _ "e1 @ [A]"])
         (simp add: await_def emit_def ret_def config_writes_append)
  next
    case False
    have BC: "config_writes [B, C] = []"
      using ev config_writes_append[of "[B]" "[C]"] by simp
    from False M BC show ?thesis
      by (intro exI[of _ False] exI[of _ "w1\<lparr>trace := trace w1 @ [B, C]\<rparr>"] exI[of _ "e1 @ [B, C]"])
         (simp add: await_def emit_def ret_def config_writes_append)
  qed
qed

lemma editor_short_circuit:
  "short_circuit (editor_plan (resolved_exe h exe)) (setVsCodeAsGitEditor h git exe)"
  unfolding setVsCodeAsGitEditor_def vscodeExe_or_find_ret await_ret editor_plan_def
  by (rule notify_short_circuit[OF sgc_short_circuit]) simp_all

lemma difftool_short_circuit:
  "short_circuit (difftool_plan (resolved_exe h exe)) (setVsCodeAsGitDiffTool h git exe)"
  unfolding setVsCodeAsGitDiffTool_def vscodeExe_or_find_ret await_ret difftool_plan_def
  using and_then_short_circuit[OF sgc_short_circuit sgc_short_circuit]
  by (intro notify_short_circuit) simp_all

lemma mergetool_short_circuit:
  "short_circuit (mergetool_plan (resolved_exe h exe)) (setVsCodeAsGitMergeTool h git exe)"
  unfolding setVsCodeAsGitMergeTool_def vscodeExe_or_find_ret await_ret mergetool_plan_def
  using and_then_short_circuit[OF sgc_short_circuit sgc_short_circuit]
  by (intro notify_short_circuit) simp_all

lemma resolved_exe_Some_app: "resolved_exe h (Some (electron_app h)) = electron_app h"
  by (simp add: resolved_exe_def)

lemma tools_short_circuit:
  "short_circuit (tools_plan (electron_app h)) (setVsCodeAsGitTools h git)"
proof -
  let ?e = "Some (electron_app h)"
  have "short_circuit ((editor_plan (electron_app h) @ difftool_plan (electron_app h)) @ mergetool_plan (electron_app h))
          (and_then (and_then (setVsCodeAsGitEditor h git ?e) (setVsCodeAsGitDiffTool h git ?e))
                    (setVsCodeAsGitMergeTool h git ?e))"
    using editor_short_circuit[where exe = ?e and h = h and git = git]
      difftool_short_circuit[where exe = ?e and h = h and git = git]
      mergetool_short_circuit[where exe = ?e and h = h and git = git]
    unfolding resolved_exe_Some_app
    by (intro and_then_short_circuit)
  then show ?thesis
    by (simp add: setVsCodeAsGitTools_def findVsCodeExeInPath_def await_ret tools_plan_def)
qed

subsection \<open>The config setter\<close>

text \<open>
  C4. \<^verbatim>\<open>setGitGlobalConfig\<close> never rejects: whatever the toolchain, the key and the value,
  it resolves, having invoked \<^verbatim>\<open>git config --global key value\<close> once; it resolves to true
  when the invocation completed with exit code 0, and to false when it completed with
  another exit code or failed to run.
\<close>

theorem setGitGlobalConfig_total:
  "\<exists>w'. setGitGlobalConfig git key val w =
     (Inr (case fst (exec git (js ''.'') [js ''config'', js ''--global'', key, val] (toolchain w)) of
             Inl error \<Rightarrow> False
           | Inr res \<Rightarrow> exitCode res = 0), w') \<and>
     filter (\<lambda>ev. case ev of Exec cwd args r \<Rightarrow> True | _ \<Rightarrow> False) (new_events w w') =
       [Exec (js ''.'') [js ''config'', js ''--global'', key, val]
          (fst (exec git (js ''.'') [js ''config'', js ''--global'', key, val] (toolchain w)))]"
  by (cases "exec git (js ''.'') [js ''config'', js ''--global'', key, val] (toolchain w)")
     (auto simp: sgc_run succeeded_def new_events_def split: sum.splits)

theorem setGitGlobalConfig_total_witness:
  "fst (setGitGlobalConfig obedient_git (js ''core.editor'') (js ''code'') world0) = Inr True \<and>
   fst (setGitGlobalConfig refusing_git (js ''core.editor'') (js ''code'') world0) = Inr False \<and>
   fst (setGitGlobalConfig unspawnable_git (js ''core.editor'') (js ''code'') world0) = Inr False"
  using setGitGlobalConfig_total[of obedient_git "js ''core.editor''" "js ''code''" world0]
    setGitGlobalConfig_total[of refusing_git "js ''core.editor''" "js ''code''" world0]
    setGitGlobalConfig_total[of unspawnable_git "js ''core.editor''" "js ''code''" world0]
  by (auto simp: obedient_git_def refusing_git_def unspawnable_git_def)

subsection \<open>The installers stop at the first failed write\<close>

lemma only_last_fails:
  assumes "list_all P (butlast xs)" "i < length xs" "\<not> P (xs ! i)"
  shows "Suc i = length xs"
proof (rule ccontr)
  assume "Suc i \<noteq> length xs"
  with assms(2) have "i < length (butlast xs)" by simp
  with assms(1) have "P (butlast xs ! i)" by (simp add: list_all_length)
  with \<open>i < length (butlast xs)\<close> assms(3) show False by (simp add: nth_butlast)
qed

lemma installers_short_circuit_each:
  assumes "(plan, install) \<in> set (installers h git vscodeExe)"
  shows "short_circuit plan install"
proof -
  from assms consider
      "plan = editor_plan (resolved_exe h vscodeExe)" "install = setVsCodeAsGitEditor h git vscodeExe"
    | "plan = difftool_plan (resolved_exe h vscodeExe)" "install = setVsCodeAsGitDiffTool h git vscodeExe"
    | "plan = mergetool_plan (resolved_exe h vscodeExe)" "install = setVsCodeAsGitMergeTool h git vscodeExe"
    | "plan = tools_plan (electron_app h)" "install = setVsCodeAsGitTools h git"
    unfolding installers_def by fastforce
  then show ?thesis
  proof cases
    case 1 then show ?thesis by (simp only: editor_short_circuit)
  next
    case 2 then show ?thesis by (simp only: difftool_short_circuit)
  next
    case 3 then show ?thesis by (simp only: mergetool_short_circuit)
  next
    case 4 then show ?thesis by (simp only: tools_short_circuit)
  qed
qed

text \<open>
  C1. Each installer (editor, diff tool, merge tool, and the three together) resolves to
  a boolean. The config writes it attempted are the first writes of its plan, in order;
  a write that failed is the last one attempted, and then the result is false; when the
  result is true, every write succeeded and the whole plan was written.
\<close>

theorem installers_all_or_false:
  assumes "(plan, install) \<in> set (installers h git vscodeExe)"
  shows "\<exists>ok w'. install w = (Inr ok, w') \<and>
     (let writes = config_writes (new_events w w') in
        prefix (map write_kv writes) plan \<and>
        (\<forall>i < length writes. \<not> write_ok (writes ! i) \<longrightarrow> Suc i = length writes \<and> ok = False) \<and>
        (ok \<longrightarrow> list_all write_ok writes \<and> map write_kv writes = plan))"
proof -
  from installers_short_circuit_each[OF assms]
  obtain ok w' evs where r: "install w = (Inr ok, w')" "trace w' = trace w @ evs"
    "prefix (map write_kv (config_writes evs)) plan"
    "list_all write_ok (butlast (config_writes evs))"
    "ok \<longleftrightarrow> list_all write_ok (config_writes evs)"
    "ok \<longrightarrow> map write_kv (config_writes evs) = plan"
    unfolding short_circuit_def by blast
  have ev: "new_events w w' = evs" using r(2) by (simp add: new_events_def)
  have last: "Suc i = length (config_writes evs) \<and> ok = False"
    if "i < length (config_writes evs)" "\<not> write_ok (config_writes evs ! i)" for i
  proof
    show "Suc i = length (config_writes evs)"
      using only_last_fails[OF r(4) that] .
    have "\<not> list_all write_ok (config_writes evs)"
      using that by (auto simp: list_all_length)
    then show "ok = False" using r(5) by simp
  qed
  have "install w = (Inr ok, w') \<and>
     (let writes = config_writes (new_events w w') in
        prefix (map write_kv writes) plan \<and>
        (\<forall>i < length writes. \<not> write_ok (writes ! i) \<longrightarrow> Suc i = length writes \<and> ok = False) \<and>
        (ok \<longrightarrow> list_all write_ok writes \<and> map write_kv writes = plan))"
    unfolding Let_def ev using r(1,3,5,6) last by blast
  then show ?thesis by blast
qed

lemma difftool_refused:
  "setVsCodeAsGitDiffTool host0 refusing_git None world0 =
    (Inr False, world0\<lparr>trace :=
       [Exec (js ''.'') [js ''config'', js ''--global'', js ''difftool.vscode.cmd'',
              difftool_value (js ''/usr/bin/code'')]
          (Inr \<lparr>exitCode = 255, stdout = [], stderr = js ''error: could not lock config file''\<rparr>),
        ConsoleError (js ''Fail to set git setting. Error: '' @ [LF] @ js ''error: could not lock config file''),
        ShowErrorMessage (js ''Failed to set Visual Studio Code as diff tool. See OUTPUT panel form more details''),
        OutputChannelShow]\<rparr>)"
  by (simp add: setVsCodeAsGitDiffTool_def vscodeExe_or_find_ret await_ret resolved_exe_def
      and_then_def sgc_run refusing_git_def host0_def world0_def await_def ret_def emit_def
      localize_def succeeded_def)

theorem installers_all_or_false_witness:
  "(difftool_plan (resolved_exe host0 None), setVsCodeAsGitDiffTool host0 refusing_git None)
     \<in> set (installers host0 refusing_git None) \<and>
   fst (setVsCodeAsGitDiffTool host0 refusing_git None world0) = Inr False \<and>
   map fst (config_writes (new_events world0 (snd (setVsCodeAsGitDiffTool host0 refusing_git None world0))))
     = [js ''difftool.vscode.cmd'']"
proof -
  have m: "(difftool_plan (resolved_exe host0 None), setVsCodeAsGitDiffTool host0 refusing_git None)
     \<in> set (installers host0 refusing_git None)"
    by (simp add: installers_def)
  have w: "trace world0 = []" by (simp add: world0_def)
  from installers_all_or_false[OF m, of world0] m show ?thesis
    by (simp add: difftool_refused new_events_def w)
qed

subsection \<open>The tool selection is written after its command\<close>

lemma written_after_plan:
  assumes p: "prefix (map write_kv cws) plan"
    and b: "list_all write_ok (butlast cws)"
    and o: "\<And>i. i < length plan \<Longrightarrow> fst (plan ! i) = sel \<Longrightarrow> \<exists>j<i. fst (plan ! j) = cmd"
  shows "written_after cmd sel cws"
  unfolding written_after_def
proof (intro allI impI)
  fix i assume i: "i < length cws" and s: "fst (cws ! i) = sel"
  from p obtain rest where plan: "plan = map write_kv cws @ rest" by (auto simp: prefix_def)
  have at: "fst (plan ! k) = fst (cws ! k)" if "k < length cws" for k
    using that by (simp add: plan nth_append write_kv_def)
  from i have "i < length plan" by (simp add: plan)
  with o[of i] s at[OF i] obtain j where j: "j < i" "fst (plan ! j) = cmd" by auto
  from j i have jl: "j < length cws" by simp
  from j i have "j < length (butlast cws)" by simp
  with b have "write_ok (butlast cws ! j)" by (simp add: list_all_length)
  then have "write_ok (cws ! j)" using \<open>j < length (butlast cws)\<close> by (simp add: nth_butlast)
  with j at[OF jl] show "\<exists>j<i. fst (cws ! j) = cmd \<and> write_ok (cws ! j)" by auto
qed

lemma short_circuit_written_after:
  assumes sc: "short_circuit plan m"
    and o: "\<And>i. i < length plan \<Longrightarrow> fst (plan ! i) = sel \<Longrightarrow> \<exists>j<i. fst (plan ! j) = cmd"
  shows "written_after cmd sel (config_writes (new_events w (snd (m w))))"
proof -
  from sc obtain ok w' evs where r: "m w = (Inr ok, w')" "trace w' = trace w @ evs"
    "prefix (map write_kv (config_writes evs)) plan"
    "list_all write_ok (butlast (config_writes evs))"
    unfolding short_circuit_def by blast
  have "new_events w (snd (m w)) = evs" using r(1,2) by (simp add: new_events_def)
  with written_after_plan[OF r(3,4) o] show ?thesis by simp
qed

lemma key_neq:
  "js ''difftool.vscode.cmd'' \<noteq> js ''diff.tool''"
  "js ''mergetool.vscode.cmd'' \<noteq> js ''merge.tool''"
  "js ''core.editor'' \<noteq> js ''diff.tool''"
  "js ''core.editor'' \<noteq> js ''merge.tool''"
  "js ''difftool.vscode.cmd'' \<noteq> js ''merge.tool''"
  "js ''mergetool.vscode.cmd'' \<noteq> js ''diff.tool''"
  "js ''diff.tool'' \<noteq> js ''merge.tool''"
  by (simp_all add: js_def)

lemma difftool_plan_order:
  "i < length (difftool_plan e) \<Longrightarrow> fst (difftool_plan e ! i) = js ''diff.tool'' \<Longrightarrow>
   \<exists>j<i. fst (difftool_plan e ! j) = js ''difftool.vscode.cmd''"
  by (cases i) (simp_all add: difftool_plan_def key_neq)

lemma mergetool_plan_order:
  "i < length (mergetool_plan e) \<Longrightarrow> fst (mergetool_plan e ! i) = js ''merge.tool'' \<Longrightarrow>
   \<exists>j<i. fst (mergetool_plan e ! j) = js ''mergetool.vscode.cmd''"
  by (cases i) (simp_all add: mergetool_plan_def key_neq)

lemma tools_plan_nth:
  "tools_plan e ! 0 = (js ''core.editor'', editor_value e)"
  "tools_plan e ! Suc 0 = (js ''difftool.vscode.cmd'', difftool_value e)"
  "tools_plan e ! Suc (Suc 0) = (js ''diff.tool'', js ''vscode'')"
  "tools_plan e ! Suc (Suc (Suc 0)) = (js ''mergetool.vscode.cmd'', mergetool_value e)"
  "tools_plan e ! Suc (Suc (Suc (Suc 0))) = (js ''merge.tool'', js ''vscode'')"
  "length (tools_plan e) = 5"
  by (simp_all add: tools_plan_def editor_plan_def difftool_plan_def mergetool_plan_def)

lemma less_5_cases:
  "i < (5::nat) \<Longrightarrow> i = 0 \<or> i = Suc 0 \<or> i = Suc (Suc 0) \<or> i = Suc (Suc (Suc 0)) \<or> i = Suc (Suc (Suc (Suc 0)))"
  by arith

lemma tools_plan_order_diff:
  assumes "i < length (tools_plan e)" "fst (tools_plan e ! i) = js ''diff.tool''"
  shows "\<exists>j<i. fst (tools_plan e ! j) = js ''difftool.vscode.cmd''"
proof -
  from assms(1) have c: "i = 0 \<or> i = Suc 0 \<or> i = Suc (Suc 0) \<or> i = Suc (Suc (Suc 0)) \<or> i = Suc (Suc (Suc (Suc 0)))"
    by (intro less_5_cases) (simp add: tools_plan_nth)
  with assms(2) have "i = Suc (Suc 0)"
    using key_neq by (auto simp: tools_plan_nth)
  then show ?thesis by (intro exI[of _ "Suc 0"]) (simp add: tools_plan_nth)
qed

lemma tools_plan_order_merge:
  assumes "i < length (tools_plan e)" "fst (tools_plan e ! i) = js ''merge.tool''"
  shows "\<exists>j<i. fst (tools_plan e ! j) = js ''mergetool.vscode.cmd''"
proof -
  from assms(1) have c: "i = 0 \<or> i = Suc 0 \<or> i = Suc (Suc 0) \<or> i = Suc (Suc (Suc 0)) \<or> i = Suc (Suc (Suc (Suc 0)))"
    by (intro less_5_cases) (simp add: tools_plan_nth)
  with assms(2) have "i = Suc (Suc (Suc (Suc 0)))"
    using key_neq by (auto simp: tools_plan_nth)
  then show ?thesis by (intro exI[of _ "Suc (Suc (Suc 0))"]) (simp add: tools_plan_nth)
qed

text \<open>
  C10. In every run of the diff tool installer, of the merge tool installer and of the
  combined installer, a write of \<^verbatim>\<open>diff.tool\<close> comes after a successful write of
  \<^verbatim>\<open>difftool.vscode.cmd\<close> in the same run, and a write of \<^verbatim>\<open>merge.tool\<close> after a
  successful write of \<^verbatim>\<open>mergetool.vscode.cmd\<close>.
\<close>

theorem tool_selected_after_command:
  "written_after (js ''difftool.vscode.cmd'') (js ''diff.tool'')
     (config_writes (new_events w (snd (setVsCodeAsGitDiffTool h git vscodeExe w)))) \<and>
   written_after (js ''mergetool.vscode.cmd'') (js ''merge.tool'')
     (config_writes (new_events w (snd (setVsCodeAsGitMergeTool h git vscodeExe w)))) \<and>
   written_after (js ''difftool.vscode.cmd'') (js ''diff.tool'')
     (config_writes (new_events w (snd (setVsCodeAsGitTools h git w)))) \<and>
   written_after (js ''mergetool.vscode.cmd'') (js ''merge.tool'')
     (config_writes (new_events w (snd (setVsCodeAsGitTools h git w))))"
  using short_circuit_written_after[OF difftool_short_circuit difftool_plan_order]
    short_circuit_written_after[OF mergetool_short_circuit mergetool_plan_order]
    short_circuit_written_after[OF tools_short_circuit tools_plan_order_diff]
    short_circuit_written_after[OF tools_short_circuit tools_plan_order_merge]
  by blast

lemma difftool_obeyed:
  "setVsCodeAsGitDiffTool host0 obedient_git None world0 =
    (Inr True, world0\<lparr>
       toolchain := (\<lambda>k. None)(js ''difftool.vscode.cmd'' \<mapsto> difftool_value (js ''/usr/bin/code''),
                                js ''diff.tool'' \<mapsto> js ''vscode''),
       trace :=
       [Exec (js ''.'') [js ''config'', js ''--global'', js ''difftool.vscode.cmd'',
              difftool_value (js ''/usr/bin/code'')]
          (Inr \<lparr>exitCode = 0, stdout = [], stderr = []\<rparr>),
        Exec (js ''.'') [js ''config'', js ''--global'', js ''diff.tool'', js ''vscode'']
          (Inr \<lparr>exitCode = 0, stdout = [], stderr = []\<rparr>),
        ShowInformationMessage (js ''Visual Studio Code has been successfully set as diff tool'')]\<rparr>)"
  by (simp add: setVsCodeAsGitDiffTool_def vscodeExe_or_find_ret await_ret resolved_exe_def
      and_then_def sgc_run obedient_git_def host0_def world0_def await_def ret_def emit_def
      localize_def succeeded_def)

theorem tool_selected_after_command_witness:
  "map (\<lambda>cw. (fst cw, write_ok cw))
     (config_writes (new_events world0 (snd (setVsCodeAsGitDiffTool host0 obedient_git None world0))))
     = [(js ''difftool.vscode.cmd'', True), (js ''diff.tool'', True)] \<and>
   written_after (js ''difftool.vscode.cmd'') (js ''diff.tool'')
     (config_writes (new_events world0 (snd (setVsCodeAsGitDiffTool host0 obedient_git None world0)))) \<and>
   map (\<lambda>cw. (fst cw, write_ok cw))
     (config_writes (new_events world0 (snd (setVsCodeAsGitDiffTool host0 refusing_git None world0))))
     = [(js ''difftool.vscode.cmd'', False)]"
proof -
  have w: "trace world0 = []" by (simp add: world0_def)
  have a: "map (\<lambda>cw. (fst cw, write_ok cw))
     (config_writes (new_events world0 (snd (setVsCodeAsGitDiffTool host0 obedient_git None world0))))
     = [(js ''difftool.vscode.cmd'', True), (js ''diff.tool'', True)]"
    by (simp add: difftool_obeyed new_events_def w write_ok_def succeeded_def)
  have b: "map (\<lambda>cw. (fst cw, write_ok cw))
     (config_writes (new_events world0 (snd (setVsCodeAsGitDiffTool host0 refusing_git None world0))))
     = [(js ''difftool.vscode.cmd'', False)]"
    by (simp add: difftool_refused new_events_def w write_ok_def succeeded_def)
  from tool_selected_after_command[of world0 host0 obedient_git None] a b show ?thesis
    by blast
qed

subsection \<open>Running an installer twice\<close>

lemma write_all_append: "write_all (p @ q) g = write_all q (write_all p g)"
  by (simp add: write_all_def)

lemma write_all_lookup:
  "write_all plan g k = (case map_of (rev plan) k of None \<Rightarrow> g k | Some v \<Rightarrow> Some v)"
proof (induction plan arbitrary: g)
  case Nil
  show ?case by (simp add: write_all_def)
next
  case (Cons kv plan)
  have "write_all (kv # plan) g = write_all plan (g(fst kv \<mapsto> snd kv))"
    by (simp add: write_all_def)
  then show ?case
    by (cases kv) (auto simp: Cons.IH map_add_def split: option.splits)
qed

lemma write_all_twice: "write_all plan (write_all plan g) = write_all plan g"
  by (rule ext) (simp add: write_all_lookup split: option.splits)

lemma sgc_applies:
  assumes "healthy git"
  shows "applies [(key, val)] (setGitGlobalConfig git key val)"
  unfolding applies_def
proof
  fix w :: "(jsstring \<Rightarrow> jsstring option) world"
  from assms obtain res where
    "exec git (js ''.'') [js ''config'', js ''--global'', key, val] (toolchain w)
       = (Inr res, (toolchain w)(key \<mapsto> val))" "exitCode res = 0"
    unfolding healthy_def by blast
  then show "\<exists>w'. setGitGlobalConfig git key val w = (Inr True, w') \<and>
      toolchain w' = write_all [(key, val)] (toolchain w)"
    by (simp add: sgc_run succeeded_def write_all_def)
qed

lemma and_then_applies:
  assumes "applies pa a" "applies pb b"
  shows "applies (pa @ pb) (and_then a b)"
  unfolding applies_def
proof
  fix w
  from assms(1) obtain wa where a: "a w = (Inr True, wa)" "toolchain wa = write_all pa (toolchain w)"
    unfolding applies_def by blast
  from assms(2) obtain wb where b: "b wa = (Inr True, wb)" "toolchain wb = write_all pb (toolchain wa)"
    unfolding applies_def by blast
  from a b show "\<exists>w'. and_then a b w = (Inr True, w') \<and> toolchain w' = write_all (pa @ pb) (toolchain w)"
    by (simp add: and_then_def await_def write_all_append)
qed

lemma notify_applies:
  assumes "applies plan m"
  shows "applies plan (await m (\<lambda>ok.
           if ok then await (emit A) (\<lambda>_. ret True)
           else await (emit B) (\<lambda>_. await (emit C) (\<lambda>_. ret False))))"
  unfolding applies_def
proof
  fix w
  from assms obtain w1 where "m w = (Inr True, w1)" "toolchain w1 = write_all plan (toolchain w)"
    unfolding applies_def by blast
  then show "\<exists>w'. await m (\<lambda>ok.
           if ok then await (emit A) (\<lambda>_. ret True)
           else await (emit B) (\<lambda>_. await (emit C) (\<lambda>_. ret False))) w = (Inr True, w') \<and>
           toolchain w' = write_all plan (toolchain w)"
    by (simp add: await_def emit_def ret_def)
qed

lemma editor_applies:
  "healthy git \<Longrightarrow> applies (editor_plan (resolved_exe h exe)) (setVsCodeAsGitEditor h git exe)"
  unfolding setVsCodeAsGitEditor_def vscodeExe_or_find_ret await_ret editor_plan_def
  by (intro notify_applies sgc_applies)

lemma difftool_applies:
  "healthy git \<Longrightarrow> applies (difftool_plan (resolved_exe h exe)) (setVsCodeAsGitDiffTool h git exe)"
  unfolding setVsCodeAsGitDiffTool_def vscodeExe_or_find_ret await_ret difftool_plan_def
  using and_then_applies[OF sgc_applies sgc_applies]
  by (intro notify_applies) simp

lemma mergetool_applies:
  "healthy git \<Longrightarrow> applies (mergetool_plan (resolved_exe h exe)) (setVsCodeAsGitMergeTool h git exe)"
  unfolding setVsCodeAsGitMergeTool_def vscodeExe_or_find_ret await_ret mergetool_plan_def
  using and_then_applies[OF sgc_applies sgc_applies]
  by (intro notify_applies) simp

lemma tools_applies:
  assumes "healthy git"
  shows "applies (tools_plan (electron_app h)) (setVsCodeAsGitTools h git)"
proof -
  let ?e = "Some (electron_app h)"
  have "applies ((editor_plan (electron_app h) @ difftool_plan (electron_app h)) @ mergetool_plan (electron_app h))
          (and_then (and_then (setVsCodeAsGitEditor h git ?e) (setVsCodeAsGitDiffTool h git ?e))
                    (setVsCodeAsGitMergeTool h git ?e))"
    using editor_applies[OF assms, where exe = ?e and h = h]
      difftool_applies[OF assms, where exe = ?e and h = h]
      mergetool_applies[OF assms, where exe = ?e and h = h]
    unfolding resolved_exe_Some_app
    by (intro and_then_applies)
  then show ?thesis
    by (simp add: setVsCodeAsGitTools_def findVsCodeExeInPath_def await_ret tools_plan_def)
qed

lemma installers_applies_each:
  assumes "healthy git" "(plan, install) \<in> set (installers h git vscodeExe)"
  shows "applies plan install"
proof -
  from assms(2) consider
      "plan = editor_plan (resolved_exe h vscodeExe)" "install = setVsCodeAsGitEditor h git vscodeExe"
    | "plan = difftool_plan (resolved_exe h vscodeExe)" "install = setVsCodeAsGitDiffTool h git vscodeExe"
    | "plan = mergetool_plan (resolved_exe h vscodeExe)" "install = setVsCodeAsGitMergeTool h git vscodeExe"
    | "plan = tools_plan (electron_app h)" "install = setVsCodeAsGitTools h git"
    unfolding installers_def by fastforce
  then show ?thesis
  proof cases
    case 1 then show ?thesis by (simp only: editor_applies[OF assms(1)])
  next
    case 2 then show ?thesis by (simp only: difftool_applies[OF assms(1)])
  next
    case 3 then show ?thesis by (simp only: mergetool_applies[OF assms(1)])
  next
    case 4 then show ?thesis by (simp only: tools_applies[OF assms(1)])
  qed
qed

lemma run_writes_plan:
  assumes sc: "short_circuit plan m" and r: "m w = (Inr True, w')"
  shows "map write_kv (config_writes (new_events w w')) = plan"
proof -
  from sc obtain ok w1 evs where s: "m w = (Inr ok, w1)" "trace w1 = trace w @ evs"
    "ok \<longrightarrow> map write_kv (config_writes evs) = plan"
    unfolding short_circuit_def by blast
  with r have "ok" "w1 = w'" by simp_all
  with s show ?thesis by (simp add: new_events_def)
qed

text \<open>
  C9. With a healthy toolchain, an installer run twice in succession returns true both
  times; both runs write the keys of its plan to the same values, and the global
  configuration after the second run is the one after the first.
\<close>

theorem installers_idempotent:
  assumes "healthy git" "(plan, install) \<in> set (installers h git vscodeExe)"
  shows "\<exists>w1 w2. install w = (Inr True, w1) \<and> install w1 = (Inr True, w2) \<and>
     toolchain w2 = toolchain w1 \<and>
     map write_kv (config_writes (new_events w w1)) = plan \<and>
     map write_kv (config_writes (new_events w1 w2)) = plan"
proof -
  have ap: "applies plan install" by (rule installers_applies_each[OF assms])
  have sc: "short_circuit plan install" by (rule installers_short_circuit_each[OF assms(2)])
  from ap obtain w1 where 1: "install w = (Inr True, w1)" "toolchain w1 = write_all plan (toolchain w)"
    unfolding applies_def by blast
  from ap obtain w2 where 2: "install w1 = (Inr True, w2)" "toolchain w2 = write_all plan (toolchain w1)"
    unfolding applies_def by blast
  have "toolchain w2 = toolchain w1" using 1(2) 2(2) by (simp add: write_all_twice)
  with 1(1) 2(1) run_writes_plan[OF sc 1(1)] run_writes_plan[OF sc 2(1)] show ?thesis by blast
qed

lemma obedient_git_healthy: "healthy obedient_git"
  by (simp add: healthy_def obedient_git_def)

theorem installers_idempotent_witness:
  "healthy obedient_git \<and>
   (difftool_plan (resolved_exe host0 None), setVsCodeAsGitDiffTool host0 obedient_git None)
     \<in> set (installers host0 obedient_git None) \<and>
   (\<exists>w1 w2. setVsCodeAsGitDiffTool host0 obedient_git None world0 = (Inr True, w1) \<and>
      setVsCodeAsGitDiffTool host0 obedient_git None w1 = (Inr True, w2) \<and>
      toolchain w2 = toolchain w1 \<and>
      toolchain w1 (js ''diff.tool'') = Some (js ''vscode''))"
proof -
  have m: "(difftool_plan (resolved_exe host0 None), setVsCodeAsGitDiffTool host0 obedient_git None)
     \<in> set (installers host0 obedient_git None)"
    by (simp add: installers_def)
  from installers_idempotent[OF obedient_git_healthy m, of world0]
  obtain w1 w2 where r: "setVsCodeAsGitDiffTool host0 obedient_git None world0 = (Inr True, w1)"
    "setVsCodeAsGitDiffTool host0 obedient_git None w1 = (Inr True, w2)"
    "toolchain w2 = toolchain w1"
    by blast
  from r(1) have "toolchain w1 (js ''diff.tool'') = Some (js ''vscode'')"
    by (auto simp: difftool_obeyed)
  with r obedient_git_healthy m show ?thesis by blast
qed

subsection \<open>The legacy version warning\<close>

lemma test_leading_01_iff:
  "test_leading_01 s \<longleftrightarrow> (\<exists>rest. s = js ''0'' @ rest \<or> s = js ''1'' @ rest)"
  by (cases s) (auto simp: test_leading_01_def js_def)

lemma prompts_append: "prompts (xs @ ys) = prompts xs @ prompts ys"
  by (simp add: prompts_def)

lemma checkGitVersion_quiet:
  assumes "bool_settings w (js ''ignoreLegacyWarning'') = Some True \<or> \<not> test_leading_01 (version info)"
  shows "checkGitVersion h info w = (Inr (), w)"
  using assms by (auto simp: checkGitVersion_def config_get_bool_def await_def ret_def Let_def)

lemma checkGitVersion_prompt:
  assumes "bool_settings w (js ''ignoreLegacyWarning'') \<noteq> Some True" "test_leading_01 (version info)"
  shows "\<exists>w' msg items rest. checkGitVersion h info w = (Inr (), w') \<and>
           trace w' = trace w @ ShowWarningMessage msg items # rest \<and> prompts rest = []"
  using assms
  by (simp add: checkGitVersion_def config_get_bool_def await_def ret_def showWarningMessage_def
      executeCommand_def emit_def config_update_def prompts_def Let_def)

text \<open>
  C2. \<^verbatim>\<open>checkGitVersion\<close> always resolves. When the \<^verbatim>\<open>ignoreLegacyWarning\<close> setting is
  not true and the version string begins with the digit 0 or the digit 1, it presents
  exactly one warning; in every other case (the setting is true, the version string is
  empty or begins with any other character) it presents nothing and leaves the world as
  it was.
\<close>

theorem checkGitVersion_warns_legacy_only:
  assumes "checkGitVersion h info w = (r, w')"
  shows "r = Inr () \<and>
    (if bool_settings w (js ''ignoreLegacyWarning'') \<noteq> Some True \<and>
        (\<exists>rest. version info = js ''0'' @ rest \<or> version info = js ''1'' @ rest)
     then length (prompts (new_events w w')) = 1
     else w' = w)"
proof (cases "bool_settings w (js ''ignoreLegacyWarning'') \<noteq> Some True \<and> test_leading_01 (version info)")
  case True
  with checkGitVersion_prompt[of w info h] assms
  obtain msg items rest where "r = Inr ()"
    "trace w' = trace w @ ShowWarningMessage msg items # rest" "prompts rest = []"
    by auto
  with True show ?thesis
    unfolding test_leading_01_iff[symmetric]
    by (simp add: new_events_def prompts_def)
next
  case False
  with checkGitVersion_quiet[of w info h] assms show ?thesis
    unfolding test_leading_01_iff[symmetric] by auto
qed

theorem checkGitVersion_warns_legacy_only_witness:
  "length (prompts (new_events world0
      (snd (checkGitVersion host0 \<lparr>path = js ''/usr/bin/git'', version = js ''1.9.1''\<rparr> world0)))) = 1 \<and>
   checkGitVersion host0 \<lparr>path = js ''/usr/bin/git'', version = js ''2.30.1''\<rparr> world0 = (Inr (), world0)"
proof -
  have s: "bool_settings world0 (js ''ignoreLegacyWarning'') \<noteq> Some True"
    by (simp add: world0_def)
  have old: "\<exists>rest. js ''1.9.1'' = js ''0'' @ rest \<or> js ''1.9.1'' = js ''1'' @ rest"
    by (simp add: js_def)
  have new: "\<not> (\<exists>rest. js ''2.30.1'' = js ''0'' @ rest \<or> js ''2.30.1'' = js ''1'' @ rest)"
    by (simp add: js_def)
  have a: "length (prompts (new_events world0
      (snd (checkGitVersion host0 \<lparr>path = js ''/usr/bin/git'', version = js ''1.9.1''\<rparr> world0)))) = 1"
    using checkGitVersion_warns_legacy_only[OF surjective_pairing,
        of host0 "\<lparr>path = js ''/usr/bin/git'', version = js ''1.9.1''\<rparr>" world0] s old
    by simp
  have b: "checkGitVersion host0 \<lparr>path = js ''/usr/bin/git'', version = js ''2.30.1''\<rparr> world0 = (Inr (), world0)"
    using checkGitVersion_warns_legacy_only[OF surjective_pairing,
        of host0 "\<lparr>path = js ''/usr/bin/git'', version = js ''2.30.1''\<rparr>" world0] new
    by (simp add: prod_eq_iff)
  from a b show ?thesis by simp
qed

subsection \<open>The missing git warning\<close>

lemma isGitRepository_run: "isGitRepository h folder w = (Inr (qualifies h folder), w)"
  by (simp add: isGitRepository_def qualifies_def ret_def try_catch_def await_def stat_def Let_def
      split: sum.splits)

lemma promise_all_isGitRepository:
  "promise_all (map (isGitRepository h) folders) w = (Inr (map (qualifies h) folders), w)"
  by (induction folders) (simp_all add: ret_def isGitRepository_run)

lemma warnAboutMissingGit_ignored:
  assumes "bool_settings w (js ''ignoreMissingGitWarning'') = Some True"
  shows "warnAboutMissingGit h w = (Inr (), w)"
  using assms by (simp add: warnAboutMissingGit_def config_get_bool_def await_def ret_def)

lemma warnAboutMissingGit_no_folders:
  assumes "workspaceFolders h = None"
  shows "warnAboutMissingGit h w = (Inr (), w)"
  using assms by (simp add: warnAboutMissingGit_def config_get_bool_def await_def ret_def)

lemma warnAboutMissingGit_none_qualifies:
  assumes "workspaceFolders h = Some folders" "\<forall>f \<in> set folders. \<not> qualifies h f"
  shows "warnAboutMissingGit h w = (Inr (), w)"
  using assms
  by (simp add: warnAboutMissingGit_def config_get_bool_def await_def ret_def
      promise_all_isGitRepository list_all_iff)

text \<open>
  C6. \<^verbatim>\<open>isGitRepository\<close> never rejects and changes nothing: it resolves to true exactly
  for a folder whose scheme is \<^verbatim>\<open>file\<close> and whose \<^verbatim>\<open>.git\<close> entry stats as a directory; a
  failing stat gives false. \<^verbatim>\<open>warnAboutMissingGit\<close> presents nothing and leaves the world
  as it was when the \<^verbatim>\<open>ignoreMissingGitWarning\<close> setting is true, when no workspace
  folders are open, or when none of the open folders qualifies.
\<close>

theorem warnAboutMissingGit_quiet:
  "isGitRepository h folder w = (Inr (qualifies h folder), w) \<and>
   (bool_settings w (js ''ignoreMissingGitWarning'') = Some True \<or>
    workspaceFolders h = None \<or>
    (\<exists>folders. workspaceFolders h = Some folders \<and> (\<forall>f \<in> set folders. \<not> qualifies h f))
    \<longrightarrow> warnAboutMissingGit h w = (Inr (), w))"
  using isGitRepository_run warnAboutMissingGit_ignored warnAboutMissingGit_no_folders
    warnAboutMissingGit_none_qualifies
  by blast

lemma plain_folder_not_qualifies: "\<not> qualifies host0 plain_folder"
  by (simp add: qualifies_def host0_def plain_folder_def js_def)

lemma repo_folder_qualifies: "qualifies host0 repo_folder"
  by (simp add: qualifies_def host0_def repo_folder_def js_def)

theorem warnAboutMissingGit_quiet_witness:
  "workspaceFolders host0 = Some [plain_folder] \<and>
   isGitRepository host0 plain_folder world0 = (Inr False, world0) \<and>
   isGitRepository host0 repo_folder world0 = (Inr True, world0) \<and>
   warnAboutMissingGit host0 world0 = (Inr (), world0)"
proof -
  have f: "workspaceFolders host0 = Some [plain_folder]" by (simp add: host0_def)
  have n: "\<exists>folders. workspaceFolders host0 = Some folders \<and> (\<forall>f \<in> set folders. \<not> qualifies host0 f)"
    using f plain_folder_not_qualifies by simp
  from warnAboutMissingGit_quiet[of host0 plain_folder world0]
    warnAboutMissingGit_quiet[of host0 repo_folder world0]
    n f plain_folder_not_qualifies repo_folder_qualifies
  show ?thesis by simp
qed

subsection \<open>The output log\<close>

lemma undefined_not_blank: "\<not> test_blank (js ''undefined'')"
  by (simp add: test_blank_def js_def is_space_def)

lemma pop_blank_lines_stop:
  "\<not> test_blank (last_line lines) \<Longrightarrow> pop_blank_lines lines = lines"
  by (subst pop_blank_lines.simps) (simp only: if_False)

lemma pop_blank_lines_pop:
  "test_blank (last_line lines) \<Longrightarrow> pop_blank_lines lines = pop_blank_lines (butlast lines)"
  by (subst pop_blank_lines.simps) (simp only: if_True)

lemma pop_blank_lines_dropWhile:
  "pop_blank_lines lines = rev (dropWhile test_blank (rev lines))"
proof (induction lines rule: pop_blank_lines.induct)
  case (1 lines)
  show ?case
  proof (cases lines rule: rev_cases)
    case Nil
    then have "\<not> test_blank (last_line lines)"
      using undefined_not_blank by (simp add: last_line_def)
    then have "pop_blank_lines lines = lines" by (rule pop_blank_lines_stop)
    with Nil show ?thesis by (simp)
  next
    case (snoc front l)
    then have ll: "last_line lines = l" by (simp add: last_line_def)
    show ?thesis
    proof (cases "test_blank l")
      case True
      with ll have tb: "test_blank (last_line lines)" by simp
      then have "pop_blank_lines lines = pop_blank_lines (butlast lines)"
        by (rule pop_blank_lines_pop)
      also have "\<dots> = rev (dropWhile test_blank (rev (butlast lines)))"
        by (rule "1.IH"[OF tb])
      also have "\<dots> = rev (dropWhile test_blank (rev lines))"
        using snoc True by (simp)
      finally show ?thesis .
    next
      case False
      with ll have "\<not> test_blank (last_line lines)" by simp
      then have "pop_blank_lines lines = lines" by (rule pop_blank_lines_stop)
      with snoc False show ?thesis by (simp)
    qed
  qed
qed

lemma pop_blank_lines_split:
  "\<exists>dropped. lines = pop_blank_lines lines @ dropped \<and> list_all test_blank dropped"
proof -
  let ?t = "takeWhile test_blank (rev lines)" and ?d = "dropWhile test_blank (rev lines)"
  have "rev (rev lines) = rev (?t @ ?d)" by (simp only: takeWhile_dropWhile_id)
  then have "lines = rev ?d @ rev ?t" by (simp only: rev_rev_ident rev_append)
  moreover have "list_all test_blank (rev ?t)"
    by (auto simp: list_all_iff dest: set_takeWhileD)
  ultimately show ?thesis
    unfolding pop_blank_lines_dropWhile by blast
qed

lemma pop_blank_lines_last:
  assumes "pop_blank_lines lines \<noteq> []"
  shows "\<not> test_blank (last (pop_blank_lines lines))"
proof -
  from assms have ne: "dropWhile test_blank (rev lines) \<noteq> []"
    by (simp only: pop_blank_lines_dropWhile rev_is_Nil_conv not_False_eq_True)
  then have "\<not> test_blank (hd (dropWhile test_blank (rev lines)))"
    by (rule hd_dropWhile)
  with ne show ?thesis
    by (simp add: pop_blank_lines_dropWhile last_rev)
qed

lemma split_acc_LF: "split_acc cur (LF # rest) = cur # split_acc [] rest"
  by simp

lemma CR_not_LF: "CR \<noteq> LF"
  by (simp add: CR_def LF_def)

lemma split_acc_CRLF: "split_acc cur (CR # LF # rest) = cur # split_acc [] rest"
  by (simp add: CR_not_LF)

lemma split_acc_other:
  assumes "c \<noteq> LF" "\<not> (c = CR \<and> (\<exists>rest'. rest = LF # rest'))"
  shows "split_acc cur (c # rest) = split_acc (cur @ [c]) rest"
  using assms by (cases rest) auto

lemma drop_cr_CRLF: "drop_cr_before_lf (CR # LF # s) = LF # drop_cr_before_lf s"
  by simp

lemma drop_cr_other:
  assumes "\<not> (c = CR \<and> (\<exists>rest'. rest = LF # rest'))"
  shows "drop_cr_before_lf (c # rest) = c # drop_cr_before_lf rest"
  using assms by (cases rest) auto

lemma drop_cr_LF: "drop_cr_before_lf (LF # rest) = LF # drop_cr_before_lf rest"
  using CR_not_LF by (intro drop_cr_other) auto

lemma split_acc_cases:
  obtains (lf) "c = LF"
  | (crlf) rest' where "c = CR" "rest = LF # rest'"
  | (other) "c \<noteq> LF" "\<not> (c = CR \<and> (\<exists>rest'. rest = LF # rest'))"
  by blast

lemma split_acc_not_Nil: "split_acc cur s \<noteq> []"
proof (induction s arbitrary: cur rule: length_induct)
  case (1 s)
  show ?case
  proof (cases s)
    case Nil
    then show ?thesis by simp
  next
    case (Cons c rest)
    show ?thesis
    proof (cases rule: split_acc_cases[where c = c and rest = rest])
      case lf
      show ?thesis unfolding Cons lf split_acc_LF by simp
    next
      case (crlf rest')
      show ?thesis unfolding Cons crlf split_acc_CRLF by simp
    next
      case other
      from Cons have "length rest < length s" by simp
      with 1 have "split_acc (cur @ [c]) rest \<noteq> []" by blast
      then show ?thesis unfolding Cons split_acc_other[OF other] .
    qed
  qed
qed

lemma join_lines_Cons: "ls \<noteq> [] \<Longrightarrow> join_lines (l # ls) = l @ [LF] @ join_lines ls"
  by (cases ls) simp_all

lemma join_split_acc: "join_lines (split_acc cur s) = cur @ drop_cr_before_lf s"
proof (induction s arbitrary: cur rule: length_induct)
  case (1 s)
  show ?case
  proof (cases s)
    case Nil
    then show ?thesis by simp
  next
    case (Cons c rest)
    show ?thesis
    proof (cases rule: split_acc_cases[where c = c and rest = rest])
      case lf
      from Cons have "length rest < length s" by simp
      with 1 have ih: "join_lines (split_acc [] rest) = [] @ drop_cr_before_lf rest" by blast
      show ?thesis
        unfolding Cons lf split_acc_LF join_lines_Cons[OF split_acc_not_Nil] ih drop_cr_LF
        by simp
    next
      case (crlf rest')
      from Cons crlf have "length rest' < length s" by simp
      with 1 have ih: "join_lines (split_acc [] rest') = [] @ drop_cr_before_lf rest'" by blast
      show ?thesis
        unfolding Cons crlf split_acc_CRLF join_lines_Cons[OF split_acc_not_Nil] ih drop_cr_CRLF
        by simp
    next
      case other
      from Cons have "length rest < length s" by simp
      with 1 have ih: "join_lines (split_acc (cur @ [c]) rest) = (cur @ [c]) @ drop_cr_before_lf rest"
        by blast
      show ?thesis
        unfolding Cons split_acc_other[OF other] ih drop_cr_other[OF other(2)]
        by simp
    qed
  qed
qed

lemma split_acc_no_LF:
  "LF \<notin> set cur \<Longrightarrow> l \<in> set (split_acc cur s) \<Longrightarrow> LF \<notin> set l"
proof (induction s arbitrary: cur rule: length_induct)
  case (1 s)
  have ih: "LF \<notin> set l" if "length t < length s" "LF \<notin> set cur'" "l \<in> set (split_acc cur' t)"
    for t cur'
    using 1(1) that by blast
  show ?case
  proof (cases s)
    case Nil
    with 1(2,3) show ?thesis by simp
  next
    case (Cons c rest)
    from Cons have len: "length rest < length s" by simp
    show ?thesis
    proof (cases rule: split_acc_cases[where c = c and rest = rest])
      case lf
      from 1(3) have "l = cur \<or> l \<in> set (split_acc [] rest)"
        unfolding Cons lf split_acc_LF by simp
      then show ?thesis
      proof
        assume "l = cur" with 1(2) show ?thesis by simp
      next
        assume "l \<in> set (split_acc [] rest)"
        then show ?thesis by (intro ih[OF len, of "[]"]) simp_all
      qed
    next
      case (crlf rest')
      with len have len': "length rest' < length s" by simp
      from 1(3) have "l = cur \<or> l \<in> set (split_acc [] rest')"
        unfolding Cons crlf split_acc_CRLF by simp
      then show ?thesis
      proof
        assume "l = cur" with 1(2) show ?thesis by simp
      next
        assume "l \<in> set (split_acc [] rest')"
        then show ?thesis by (intro ih[OF len', of "[]"]) simp_all
      qed
    next
      case other
      from 1(3) have m: "l \<in> set (split_acc (cur @ [c]) rest)"
        unfolding Cons split_acc_other[OF other] .
      from other 1(2) have "LF \<notin> set (cur @ [c])" by simp
      from ih[OF len this m] show ?thesis .
    qed
  qed
qed

text \<open>
  C7. The output handler emits one \<^verbatim>\<open>appendLine\<close> entry and nothing else. The lines of
  its input are what stands between the line feeds once the carriage return before a line
  feed is dropped. The lines kept are a prefix of them: the lines dropped are all at the
  end and all white space only, and the last line kept is not (so every trailing
  white space only line is dropped, and a blank line before the last line kept stays);
  the entry is the lines kept, joined by line feeds.
\<close>

theorem onOutput_strips_trailing_blank_lines:
  "\<exists>kept dropped.
     split_lines str = kept @ dropped \<and>
     list_all test_blank dropped \<and>
     (kept \<noteq> [] \<longrightarrow> \<not> test_blank (last kept)) \<and>
     onOutput str w = (Inr (), w\<lparr>trace := trace w @ [AppendLine (join_lines kept)]\<rparr>) \<and>
     (\<forall>l \<in> set (split_lines str). LF \<notin> set l) \<and>
     join_lines (split_lines str) = drop_cr_before_lf str"
proof -
  obtain dropped where d: "split_lines str = pop_blank_lines (split_lines str) @ dropped"
    "list_all test_blank dropped"
    using pop_blank_lines_split by blast
  have "onOutput str w =
      (Inr (), w\<lparr>trace := trace w @ [AppendLine (join_lines (pop_blank_lines (split_lines str)))]\<rparr>)"
    by (simp add: onOutput_def emit_def)
  moreover have "\<forall>l \<in> set (split_lines str). LF \<notin> set l"
    unfolding split_lines_def using split_acc_no_LF[of "[]"] by simp
  moreover have "join_lines (split_lines str) = drop_cr_before_lf str"
    by (simp add: split_lines_def join_split_acc)
  ultimately have "split_lines str = pop_blank_lines (split_lines str) @ dropped \<and>
     list_all test_blank dropped \<and>
     (pop_blank_lines (split_lines str) \<noteq> [] \<longrightarrow> \<not> test_blank (last (pop_blank_lines (split_lines str)))) \<and>
     onOutput str w = (Inr (), w\<lparr>trace := trace w @ [AppendLine (join_lines (pop_blank_lines (split_lines str)))]\<rparr>) \<and>
     (\<forall>l \<in> set (split_lines str). LF \<notin> set l) \<and>
     join_lines (split_lines str) = drop_cr_before_lf str"
    using d pop_blank_lines_last[of "split_lines str"] by simp
  then show ?thesis by (intro exI)
qed

theorem onOutput_strips_trailing_blank_lines_witness:
  "split_lines sample_output = [js ''a'', [], js ''b'', [0x20], [], []] \<and>
   trace (snd (onOutput sample_output world0)) = [AppendLine (js ''a'' @ [LF, LF] @ js ''b'')] \<and>
   join_lines (split_lines sample_output) = drop_cr_before_lf sample_output"
proof -
  have a: "split_lines sample_output = [js ''a'', [], js ''b'', [0x20], [], []]"
    by code_simp
  have b: "trace (snd (onOutput sample_output world0)) = [AppendLine (js ''a'' @ [LF, LF] @ js ''b'')]"
    by code_simp
  from onOutput_strips_trailing_blank_lines[of sample_output world0]
  have "join_lines (split_lines sample_output) = drop_cr_before_lf sample_output"
    by blast
  with a b show ?thesis by simp
qed

subsection \<open>Teardown\<close>

text \<open>
  C3 as stated: whatever the tasks and whether or not one fails, the teardown leaves the
  world as running every task in order leaves it. It fails for a failing task followed
  by a task that logs: the second task is never invoked.
\<close>

theorem deactivate_runs_all_counterexample:
  "\<not> (\<forall>tasks (w :: (jsstring \<Rightarrow> jsstring option) world).
        snd (deactivate tasks w) = teardown_spec tasks w) \<and>
   deactivate [throw other_error, emit (ConsoleWarn (js ''second''))] world0 = (Inl other_error, world0) \<and>
   trace (teardown_spec [throw other_error, emit (ConsoleWarn (js ''second''))] world0)
     = [ConsoleWarn (js ''second'')]"
proof -
  let ?tasks = "[throw other_error, emit (ConsoleWarn (js ''second''))]
                  :: (unit, jsstring \<Rightarrow> jsstring option) io list"
  have d: "deactivate ?tasks world0 = (Inl other_error, world0)"
    by (simp add: await_def throw_def)
  have t: "trace (teardown_spec ?tasks world0) = [ConsoleWarn (js ''second'')]"
    by (simp add: throw_def emit_def world0_def)
  have "trace world0 = []" by (simp add: world0_def)
  with d t have "snd (deactivate ?tasks world0) \<noteq> teardown_spec ?tasks world0"
    by auto
  then have "\<not> (\<forall>tasks (w :: (jsstring \<Rightarrow> jsstring option) world).
        snd (deactivate tasks w) = teardown_spec tasks w)"
    by blast
  with d t show ?thesis by blast
qed

lemma deactivate_all_ok:
  assumes "\<forall>front task rest. tasks = front @ task # rest \<longrightarrow>
             fst (task (teardown_spec front w)) = Inr ()"
  shows "deactivate tasks w = (Inr (), teardown_spec tasks w)"
  using assms
proof (induction tasks arbitrary: w)
  case Nil
  show ?case by (simp add: ret_def)
next
  case (Cons t ts)
  from Cons.prems[rule_format, of "[]" t ts] have "fst (t w) = Inr ()" by simp
  then have t: "t w = (Inr (), snd (t w))" by (simp add: prod_eq_iff)
  have "\<forall>front task rest. ts = front @ task # rest \<longrightarrow>
          fst (task (teardown_spec front (snd (t w)))) = Inr ()"
  proof (intro allI impI)
    fix front task rest assume "ts = front @ task # rest"
    then have "t # ts = (t # front) @ task # rest" by simp
    from Cons.prems[rule_format, OF this]
    show "fst (task (teardown_spec front (snd (t w)))) = Inr ()" by simp
  qed
  from Cons.IH[OF this] have "deactivate ts (snd (t w)) = (Inr (), teardown_spec ts (snd (t w)))" .
  moreover have "deactivate (t # ts) w = deactivate ts (snd (t w))"
    using \<open>fst (t w) = Inr ()\<close> by (cases "t w") (simp add: await_def)
  ultimately show ?case by simp
qed

lemma deactivate_append_ok:
  assumes "deactivate front w = (Inr (), w1)"
  shows "deactivate (front @ rest) w = deactivate rest w1"
  using assms
proof (induction front arbitrary: w)
  case Nil
  then show ?case by (simp add: ret_def)
next
  case (Cons task front)
  then show ?case
    by (auto simp: await_def split: prod.splits sum.splits)
qed

lemma deactivate_first_failure:
  assumes "\<forall>f t r. front = f @ t # r \<longrightarrow> fst (t (teardown_spec f w)) = Inr ()"
    and "task (teardown_spec front w) = (Inl e, w')"
  shows "deactivate (front @ task # later) w = (Inl e, w')"
proof -
  from deactivate_all_ok[OF assms(1)]
  have "deactivate front w = (Inr (), teardown_spec front w)" .
  from deactivate_append_ok[OF this]
  have "deactivate (front @ task # later) w = deactivate (task # later) (teardown_spec front w)" .
  with assms(2) show ?thesis by (simp add: await_def)
qed

text \<open>
  C3, amended. The teardown invokes and awaits the tasks in the order of registration up
  to the first that fails. When no task fails (each task, run in the world the tasks
  before it leave, resolves), the teardown resolves and every task has run, in order.
  When a task fails after the tasks before it have all resolved, those have run, in
  order, the teardown rejects with the error of that task, and the world is as that task
  left it, whatever was registered after it: no later task is invoked.
\<close>

theorem deactivate_stops_at_first_failure:
  "((\<forall>front task rest. tasks = front @ task # rest \<longrightarrow>
        fst (task (teardown_spec front w)) = Inr ())
      \<longrightarrow> deactivate tasks w = (Inr (), teardown_spec tasks w)) \<and>
   (tasks = front @ task # rest \<and>
    (\<forall>f t r. front = f @ t # r \<longrightarrow> fst (t (teardown_spec f w)) = Inr ()) \<and>
    task (teardown_spec front w) = (Inl e, w')
      \<longrightarrow> deactivate front w = (Inr (), teardown_spec front w) \<and>
          deactivate tasks w = (Inl e, w') \<and>
          (\<forall>later. deactivate (front @ task # later) w = (Inl e, w')))"
  using deactivate_all_ok[of tasks w] deactivate_all_ok[of front w]
    deactivate_first_failure[of front w task e w']
  by blast

theorem deactivate_stops_at_first_failure_witness:
  "deactivate [emit (ConsoleWarn (js ''first'')), throw other_error, emit (ConsoleWarn (js ''third''))] world0
     = (Inl other_error, world0\<lparr>trace := [ConsoleWarn (js ''first'')]\<rparr>) \<and>
   deactivate [emit (ConsoleWarn (js ''first'')), emit (ConsoleWarn (js ''third''))] world0
     = (Inr (), world0\<lparr>trace := [ConsoleWarn (js ''first''), ConsoleWarn (js ''third'')]\<rparr>)"
proof -
  let ?a = "emit (ConsoleWarn (js ''first'')) :: (unit, jsstring \<Rightarrow> jsstring option) io"
  let ?c = "emit (ConsoleWarn (js ''third'')) :: (unit, jsstring \<Rightarrow> jsstring option) io"
  let ?t = "throw other_error :: (unit, jsstring \<Rightarrow> jsstring option) io"
  have w: "trace world0 = []" by (simp add: world0_def)
  have front_ok: "\<forall>f t r. [?a] = f @ t # r \<longrightarrow> fst (t (teardown_spec f world0)) = Inr ()"
    by (auto simp: Cons_eq_append_conv emit_def)
  have fails: "?t (teardown_spec [?a] world0) = (Inl other_error, world0\<lparr>trace := [ConsoleWarn (js ''first'')]\<rparr>)"
    by (simp add: throw_def emit_def w)
  have 1: "deactivate [?a, ?t, ?c] world0 = (Inl other_error, world0\<lparr>trace := [ConsoleWarn (js ''first'')]\<rparr>)"
    using deactivate_stops_at_first_failure[of "[?a, ?t, ?c]" world0 "[?a]" ?t "[?c]" other_error
        "world0\<lparr>trace := [ConsoleWarn (js ''first'')]\<rparr>"] front_ok fails
    by simp
  have all_ok: "\<forall>front task rest. [?a, ?c] = front @ task # rest \<longrightarrow>
      fst (task (teardown_spec front world0)) = Inr ()"
    by (auto simp: Cons_eq_append_conv emit_def)
  have 2: "deactivate [?a, ?c] world0 = (Inr (), world0\<lparr>trace := [ConsoleWarn (js ''first''), ConsoleWarn (js ''third'')]\<rparr>)"
    using deactivate_stops_at_first_failure[of "[?a, ?c]" world0] all_ok
    by (simp add: emit_def w)
  from 1 2 show ?thesis by simp
qed

subsection \<open>Activation\<close>

lemma keeps_ret: "keeps_enabled (ret x)"
  by (simp add: keeps_enabled_def ret_def)

lemma keeps_throw: "keeps_enabled (throw e)"
  by (simp add: keeps_enabled_def throw_def)

lemma keeps_emit: "keeps_enabled (emit ev)"
  by (simp add: keeps_enabled_def emit_def)

lemma keeps_await:
  assumes "keeps_enabled m" "\<And>x. keeps_enabled (k x)"
  shows "keeps_enabled (await m k)"
  unfolding keeps_enabled_def
proof
  fix w
  obtain r w1 where m: "m w = (r, w1)" by (cases "m w")
  with assms(1) have 1: "bool_settings w1 (js ''enabled'') = bool_settings w (js ''enabled'')"
    by (auto simp: keeps_enabled_def dest: spec[of _ w])
  show "bool_settings (snd (await m k w)) (js ''enabled'') = bool_settings w (js ''enabled'')"
  proof (cases r)
    case (Inl e)
    with m 1 show ?thesis by (simp add: await_def)
  next
    case (Inr x)
    from assms(2)[of x] have "bool_settings (snd (k x w1)) (js ''enabled'') = bool_settings w1 (js ''enabled'')"
      by (simp add: keeps_enabled_def)
    with m 1 Inr show ?thesis by (simp add: await_def)
  qed
qed

lemma keeps_try_catch:
  assumes "keeps_enabled m" "\<And>e. keeps_enabled (handler e)"
  shows "keeps_enabled (try_catch m handler)"
  unfolding keeps_enabled_def
proof
  fix w
  obtain r w1 where m: "m w = (r, w1)" by (cases "m w")
  with assms(1) have 1: "bool_settings w1 (js ''enabled'') = bool_settings w (js ''enabled'')"
    by (auto simp: keeps_enabled_def dest: spec[of _ w])
  show "bool_settings (snd (try_catch m handler w)) (js ''enabled'') = bool_settings w (js ''enabled'')"
  proof (cases r)
    case (Inr x)
    with m 1 show ?thesis by (simp add: try_catch_def)
  next
    case (Inl e)
    from assms(2)[of e] have "bool_settings (snd (handler e w1)) (js ''enabled'') = bool_settings w1 (js ''enabled'')"
      by (simp add: keeps_enabled_def)
    with m 1 Inl show ?thesis by (simp add: try_catch_def)
  qed
qed

lemma keeps_config_get_bool: "keeps_enabled (config_get_bool key)"
  by (simp add: keeps_enabled_def config_get_bool_def)

lemma keeps_config_get_string: "keeps_enabled (config_get_string key)"
  by (simp add: keeps_enabled_def config_get_string_def)

lemma keeps_config_update: "key \<noteq> js ''enabled'' \<Longrightarrow> keeps_enabled (config_update key b)"
  by (simp add: keeps_enabled_def config_update_def)

lemma keeps_showWarningMessage: "keeps_enabled (showWarningMessage h msg items)"
  by (simp add: keeps_enabled_def showWarningMessage_def)

lemma keeps_executeCommand: "keeps_enabled (executeCommand c args)"
  by (simp add: executeCommand_def keeps_emit)

lemma keeps_findGit_logged: "keeps_enabled (findGit_logged h hint)"
  by (simp add: keeps_enabled_def findGit_logged_def split: prod.splits)

lemma keeps_askpass_env: "keeps_enabled (askpass_env h)"
  by (simp add: keeps_enabled_def askpass_env_def)

lemma ignore_keys_not_enabled:
  "js ''ignoreLegacyWarning'' \<noteq> js ''enabled''"
  "js ''ignoreMissingGitWarning'' \<noteq> js ''enabled''"
  by (simp_all add: js_def)

lemma keeps_if: "keeps_enabled a \<Longrightarrow> keeps_enabled b \<Longrightarrow> keeps_enabled (if c then a else b)"
  by simp

lemma keeps_checkGitVersion: "keeps_enabled (checkGitVersion h info)"
  unfolding checkGitVersion_def Let_def
  by (intro keeps_await keeps_if keeps_ret keeps_config_get_bool keeps_showWarningMessage
      keeps_executeCommand keeps_config_update ignore_keys_not_enabled)

lemma keeps_createModel: "keeps_enabled (createModel h)"
  unfolding createModel_def
  by (intro keeps_await keeps_ret keeps_emit keeps_config_get_string keeps_findGit_logged
      keeps_askpass_env keeps_executeCommand keeps_checkGitVersion)

lemma warnAboutMissingGit_resolves:
  "\<exists>w'. warnAboutMissingGit h w = (Inr (), w') \<and>
        bool_settings w' (js ''enabled'') = bool_settings w (js ''enabled'')"
  by (simp add: warnAboutMissingGit_def config_get_bool_def await_def ret_def
      promise_all_isGitRepository showWarningMessage_def executeCommand_def emit_def
      config_update_def Let_def ignore_keys_not_enabled ignore_keys_not_enabled[symmetric]
      split: option.splits)

lemma keeps_warnAboutMissingGit: "keeps_enabled (warnAboutMissingGit h)"
  unfolding keeps_enabled_def
proof
  fix w :: "'a world"
  from warnAboutMissingGit_resolves[of h w] show
    "bool_settings (snd (warnAboutMissingGit h w)) (js ''enabled'') = bool_settings w (js ''enabled'')"
    by auto
qed

lemma keeps_activate_try: "keeps_enabled (activate_try h)"
  unfolding activate_try_def Let_def
  by (intro keeps_try_catch keeps_await keeps_if keeps_ret keeps_emit keeps_throw
      keeps_createModel keeps_warnAboutMissingGit)

lemma regex_search_sublist: "regex_search pat s \<longleftrightarrow> sublist pat s"
  by (induction s) (simp_all add: sublist_Cons_right)

lemma activate_prologue_run:
  "activate_prologue w =
     (Inr (), w\<lparr>trace := trace w @ [CreateOutputChannel (js ''Git''),
                                      RegisterCommand (js ''git.showOutput''),
                                      PushDeactivateTask (js ''telemetryReporter.dispose'')]\<rparr>)"
  by (simp add: activate_prologue_def await_def emit_def)

lemma activate_enabled:
  assumes "bool_settings w (js ''enabled'') = Some True"
  shows "activate h changes w = Settled (activate_try h (snd (activate_prologue w)))"
  using assms by (simp add: activate_def activate_prologue_run)

lemma activate_try_rethrows:
  assumes "createModel h w0 = (Inl err, w1)"
    "\<not> sublist (js ''Git installation not found'') (case message err of None \<Rightarrow> [] | Some m \<Rightarrow> m)"
  shows "activate_try h w0 = (Inl err, w1)"
  using assms
  by (simp add: activate_try_def try_catch_def await_def throw_def regex_search_sublist Let_def)

lemma activate_try_recovers:
  assumes "createModel h w0 = (Inl err, w1)"
    "sublist (js ''Git installation not found'') (case message err of None \<Rightarrow> [] | Some m \<Rightarrow> m)"
  shows "activate_try h w0 =
    (Inr (createGitExtension None),
     snd (warnAboutMissingGit h
       (w1\<lparr>trace := trace w1 @
          [ConsoleWarn (case message err of None \<Rightarrow> [] | Some m \<Rightarrow> m),
           AppendLine (case message err of None \<Rightarrow> [] | Some m \<Rightarrow> m)]\<rparr>)))"
proof -
  let ?msg = "case message err of None \<Rightarrow> [] | Some m \<Rightarrow> m"
  let ?w2 = "w1\<lparr>trace := trace w1 @ [ConsoleWarn ?msg, AppendLine ?msg]\<rparr>"
  from warnAboutMissingGit_resolves[of h ?w2]
  obtain w3 where w3: "warnAboutMissingGit h ?w2 = (Inr (), w3)" by blast
  with assms show ?thesis
    by (simp add: activate_try_def try_catch_def await_def ret_def emit_def regex_search_sublist
        Let_def)
qed

lemma gate_filter:
  "filterEvent (filterEvent changes (\<lambda>e. affectsConfiguration e (js ''git'')))
     (\<lambda>e. bool_settings_then e (js ''enabled'') = Some True) = filter enables changes"
proof -
  have "enables = (\<lambda>e. affectsConfiguration e (js ''git'') \<and>
                        bool_settings_then e (js ''enabled'') = Some True)"
    by (rule ext) (simp add: enables_def)
  then show ?thesis by (simp add: filterEvent_def)
qed

lemma activate_disabled:
  assumes "bool_settings w (js ''enabled'') \<noteq> Some True"
  shows "activate h changes w =
    (case filter enables changes of
       [] \<Rightarrow> Suspended (snd (activate_prologue w))
     | e # _ \<Rightarrow> Settled (activate_try h ((snd (activate_prologue w))
          \<lparr>bool_settings := bool_settings_then e, string_settings := string_settings_then e\<rparr>)))"
  using assms
  by (simp add: activate_def activate_prologue_run gate_filter eventToPromise_def Let_def
      split: list.splits)

lemma filter_first:
  "(\<forall>x \<in> set before. \<not> P x) \<Longrightarrow> P e \<Longrightarrow> filter P (before @ e # after) = e # filter P after"
  by simp

lemma activate_settled_enabled:
  assumes "activate h changes w = Settled (r, w')"
  shows "bool_settings w' (js ''enabled'') = Some True"
proof (cases "bool_settings w (js ''enabled'') = Some True")
  case True
  let ?w1 = "snd (activate_prologue w)"
  from True assms have "activate_try h ?w1 = (r, w')" by (simp add: activate_enabled)
  then have "bool_settings w' (js ''enabled'') = bool_settings ?w1 (js ''enabled'')"
    using keeps_activate_try[of h, unfolded keeps_enabled_def, rule_format, of ?w1] by simp
  with True show ?thesis by (simp add: activate_prologue_run)
next
  case False
  show ?thesis
  proof (cases "filter enables changes")
    case Nil
    with False assms show ?thesis by (simp add: activate_disabled)
  next
    case (Cons e es)
    let ?w1 = "(snd (activate_prologue w))
          \<lparr>bool_settings := bool_settings_then e, string_settings := string_settings_then e\<rparr>"
    from Cons have "e \<in> set (filter enables changes)" by simp
    then have e: "enables e" by simp
    from False Cons assms have "activate_try h ?w1 = (r, w')" by (simp add: activate_disabled)
    then have "bool_settings w' (js ''enabled'') = bool_settings ?w1 (js ''enabled'')"
      using keeps_activate_try[of h, unfolded keeps_enabled_def, rule_format, of ?w1] by simp
    with e show ?thesis by (simp add: enables_def)
  qed
qed

lemma activate_suspended_no_model:
  assumes "activate h changes w = Suspended w'"
  shows "ModelCreated p v \<notin> set (new_events w w')"
proof (cases "bool_settings w (js ''enabled'') = Some True")
  case True
  with assms show ?thesis by (simp add: activate_enabled)
next
  case False
  with assms have "w' = snd (activate_prologue w)"
    by (simp add: activate_disabled split: list.splits)
  then show ?thesis by (simp add: activate_prologue_run new_events_def)
qed

text \<open>
  C5. Wherever the \<^verbatim>\<open>try\<close> statement of \<^verbatim>\<open>activate\<close> runs, a failure of
  \<^verbatim>\<open>createModel\<close> whose message contains \<^verbatim>\<open>Git installation not found\<close> is handled
  there: the message is logged, the missing git warning runs, and the result is an
  extension without a model; a failure whose message does not contain it (or that has
  no message) is rethrown as it is, the world being as \<^verbatim>\<open>createModel\<close> left it. So it is
  for an activation that starts enabled, and for one that was suspended and goes on at
  the first enabling configuration change.
\<close>

theorem activate_recovers_only_from_missing_git:
  "(let msg = (case message err of None \<Rightarrow> [] | Some m \<Rightarrow> m);
        outcome =
          (if sublist (js ''Git installation not found'') msg
           then (Inr (createGitExtension None),
                 snd (warnAboutMissingGit h
                        (w1\<lparr>trace := trace w1 @ [ConsoleWarn msg, AppendLine msg]\<rparr>)))
           else (Inl err, w1))
    in
      (createModel h w0 = (Inl err, w1) \<longrightarrow> activate_try h w0 = outcome) \<and>
      (bool_settings w (js ''enabled'') = Some True \<and>
       createModel h (snd (activate_prologue w)) = (Inl err, w1)
         \<longrightarrow> activate h changes w = Settled outcome) \<and>
      (bool_settings w (js ''enabled'') \<noteq> Some True \<and>
       changes = before @ e # after \<and> (\<forall>x \<in> set before. \<not> enables x) \<and> enables e \<and>
       createModel h ((snd (activate_prologue w))
          \<lparr>bool_settings := bool_settings_then e, string_settings := string_settings_then e\<rparr>)
         = (Inl err, w1)
         \<longrightarrow> activate h changes w = Settled outcome))"
proof -
  let ?msg = "case message err of None \<Rightarrow> [] | Some m \<Rightarrow> m"
  let ?outcome = "if sublist (js ''Git installation not found'') ?msg
           then (Inr (createGitExtension None),
                 snd (warnAboutMissingGit h
                        (w1\<lparr>trace := trace w1 @ [ConsoleWarn ?msg, AppendLine ?msg]\<rparr>)))
           else (Inl err, w1)"
  have tr: "activate_try h w' = ?outcome" if "createModel h w' = (Inl err, w1)" for w'
    using activate_try_recovers[OF that] activate_try_rethrows[OF that] by simp
  have 1: "createModel h w0 = (Inl err, w1) \<longrightarrow> activate_try h w0 = ?outcome"
    using tr by blast
  have 2: "bool_settings w (js ''enabled'') = Some True \<and>
       createModel h (snd (activate_prologue w)) = (Inl err, w1)
         \<longrightarrow> activate h changes w = Settled ?outcome"
    using tr[of "snd (activate_prologue w)"] activate_enabled[of w h changes] by simp
  have 3: "bool_settings w (js ''enabled'') \<noteq> Some True \<and>
       changes = before @ e # after \<and> (\<forall>x \<in> set before. \<not> enables x) \<and> enables e \<and>
       createModel h ((snd (activate_prologue w))
          \<lparr>bool_settings := bool_settings_then e, string_settings := string_settings_then e\<rparr>)
         = (Inl err, w1)
         \<longrightarrow> activate h changes w = Settled ?outcome"
  proof
    assume a: "bool_settings w (js ''enabled'') \<noteq> Some True \<and>
       changes = before @ e # after \<and> (\<forall>x \<in> set before. \<not> enables x) \<and> enables e \<and>
       createModel h ((snd (activate_prologue w))
          \<lparr>bool_settings := bool_settings_then e, string_settings := string_settings_then e\<rparr>)
         = (Inl err, w1)"
    then have "activate h changes w = Settled (activate_try h ((snd (activate_prologue w))
          \<lparr>bool_settings := bool_settings_then e, string_settings := string_settings_then e\<rparr>))"
      by (simp add: activate_disabled filter_first)
    with a tr show "activate h changes w = Settled ?outcome" by simp
  qed
  from 1 2 3 show ?thesis unfolding Let_def by (intro conjI)
qed

text \<open>
  C8. An activation that starts with the enablement setting true goes on to create the
  model at once, whatever configuration changes follow. One that starts with the setting
  not true stays suspended as long as no configuration change both affects the \<^verbatim>\<open>git\<close>
  section and finds the setting true, and goes on at the first change that does, with
  the configuration of that change. So a settled activation ends in a world where the
  setting is true, and a suspended one has created no model.
\<close>

theorem activation_waits_for_enablement:
  "(bool_settings w (js ''enabled'') = Some True \<longrightarrow>
      activate h changes w = Settled (activate_try h (snd (activate_prologue w)))) \<and>
   (bool_settings w (js ''enabled'') \<noteq> Some True \<and> (\<forall>e \<in> set changes. \<not> enables e) \<longrightarrow>
      activate h changes w = Suspended (snd (activate_prologue w))) \<and>
   (bool_settings w (js ''enabled'') \<noteq> Some True \<and> changes = before @ e # after \<and>
    (\<forall>x \<in> set before. \<not> enables x) \<and> enables e \<longrightarrow>
      activate h changes w = Settled (activate_try h ((snd (activate_prologue w))
          \<lparr>bool_settings := bool_settings_then e, string_settings := string_settings_then e\<rparr>))) \<and>
   (\<forall>r w'. activate h changes w = Settled (r, w') \<longrightarrow> bool_settings w' (js ''enabled'') = Some True) \<and>
   (\<forall>w' p v. activate h changes w = Suspended w' \<longrightarrow> ModelCreated p v \<notin> set (new_events w w'))"
proof (intro conjI impI allI)
  assume "bool_settings w (js ''enabled'') = Some True"
  then show "activate h changes w = Settled (activate_try h (snd (activate_prologue w)))"
    by (rule activate_enabled)
next
  assume "bool_settings w (js ''enabled'') \<noteq> Some True \<and> (\<forall>e \<in> set changes. \<not> enables e)"
  then show "activate h changes w = Suspended (snd (activate_prologue w))"
    by (simp add: activate_disabled)
next
  assume "bool_settings w (js ''enabled'') \<noteq> Some True \<and> changes = before @ e # after \<and>
    (\<forall>x \<in> set before. \<not> enables x) \<and> enables e"
  then show "activate h changes w = Settled (activate_try h ((snd (activate_prologue w))
          \<lparr>bool_settings := bool_settings_then e, string_settings := string_settings_then e\<rparr>))"
    by (simp add: activate_disabled filter_first)
next
  fix r w' assume "activate h changes w = Settled (r, w')"
  then show "bool_settings w' (js ''enabled'') = Some True" by (rule activate_settled_enabled)
next
  fix w' p v assume "activate h changes w = Suspended w'"
  then show "ModelCreated p v \<notin> set (new_events w w')" by (rule activate_suspended_no_model)
qed

lemma world_enabled_enabled: "bool_settings world_enabled (js ''enabled'') = Some True"
  by (simp add: world_enabled_def world0_def)

lemma createModel_host0:
  "fst (createModel host0 w) = Inl not_found_error"
  by (simp add: createModel_def config_get_string_def await_def findGit_logged_def host0_def)

lemma createModel_host2:
  "fst (createModel host2 w) = Inl other_error"
  by (simp add: createModel_def config_get_string_def await_def findGit_logged_def host2_def host0_def)

lemma not_found_matches:
  "sublist (js ''Git installation not found'') (js ''Git installation not found.'')"
  by code_simp

lemma other_does_not_match:
  "\<not> sublist (js ''Git installation not found'') (js ''spawn EACCES'')"
  by code_simp

lemma change_path_not_enables: "\<not> enables change_path"
  by (simp add: enables_def change_path_def)

lemma change_enable_enables: "enables change_enable"
  by (simp add: enables_def change_enable_def)

lemma world0_not_enabled: "bool_settings world0 (js ''enabled'') \<noteq> Some True"
  by (simp add: world0_def)

theorem activate_recovers_only_from_missing_git_witness:
  "bool_settings world_enabled (js ''enabled'') = Some True \<and>
   fst (createModel host0 (snd (activate_prologue world_enabled))) = Inl not_found_error \<and>
   (\<exists>w'. activate host0 [] world_enabled = Settled (Inr (GitExtension None), w')) \<and>
   fst (createModel host2 (snd (activate_prologue world_enabled))) = Inl other_error \<and>
   (\<exists>w'. activate host2 [] world_enabled = Settled (Inl other_error, w')) \<and>
   bool_settings world0 (js ''enabled'') \<noteq> Some True \<and>
   (\<exists>w'. activate host0 [change_path, change_enable] world0 = Settled (Inr (GitExtension None), w')) \<and>
   (\<exists>w'. activate host2 [change_path, change_enable] world0 = Settled (Inl other_error, w'))"
proof -
  let ?w = "snd (activate_prologue world_enabled) :: (jsstring \<Rightarrow> jsstring option) world"
  let ?r = "(snd (activate_prologue world0))
          \<lparr>bool_settings := bool_settings_then change_enable,
            string_settings := string_settings_then change_enable\<rparr>
            :: (jsstring \<Rightarrow> jsstring option) world"
  have c0: "createModel host0 v = (Inl not_found_error, snd (createModel host0 v))" for v :: "(jsstring \<Rightarrow> jsstring option) world"
    using createModel_host0[of v] by (simp add: prod_eq_iff)
  have c2: "createModel host2 v = (Inl other_error, snd (createModel host2 v))" for v :: "(jsstring \<Rightarrow> jsstring option) world"
    using createModel_host2[of v] by (simp add: prod_eq_iff)
  have split: "[change_path, change_enable] = [change_path] @ change_enable # []" by simp
  have quiet: "\<forall>x \<in> set [change_path]. \<not> enables x" using change_path_not_enables by simp
  have a: "\<exists>w'. activate host0 [] world_enabled = Settled (Inr (GitExtension None), w')"
    using activate_recovers_only_from_missing_git
        [of not_found_error host0 "snd (createModel host0 ?w)" ?w world_enabled "[]"]
      world_enabled_enabled c0[of ?w] not_found_matches
    by (simp add: not_found_error_def createGitExtension_def Let_def)
  have b: "\<exists>w'. activate host2 [] world_enabled = Settled (Inl other_error, w')"
    using activate_recovers_only_from_missing_git
        [of other_error host2 "snd (createModel host2 ?w)" ?w world_enabled "[]"]
      world_enabled_enabled c2[of ?w] other_does_not_match
    by (simp add: other_error_def Let_def)
  have pre0: "bool_settings world0 (js ''enabled'') \<noteq> Some True \<and>
       [change_path, change_enable] = [change_path] @ change_enable # [] \<and>
       (\<forall>x \<in> set [change_path]. \<not> enables x) \<and> enables change_enable \<and>
       createModel host0 ?r = (Inl not_found_error, snd (createModel host0 ?r))"
    using world0_not_enabled quiet change_enable_enables c0[of ?r] by (intro conjI) simp_all
  have pre2: "bool_settings world0 (js ''enabled'') \<noteq> Some True \<and>
       [change_path, change_enable] = [change_path] @ change_enable # [] \<and>
       (\<forall>x \<in> set [change_path]. \<not> enables x) \<and> enables change_enable \<and>
       createModel host2 ?r = (Inl other_error, snd (createModel host2 ?r))"
    using world0_not_enabled quiet change_enable_enables c2[of ?r] by (intro conjI) simp_all
  have m0: "sublist (js ''Git installation not found'')
      (case message not_found_error of None \<Rightarrow> [] | Some m \<Rightarrow> m)"
    using not_found_matches by (simp add: not_found_error_def)
  have m2: "\<not> sublist (js ''Git installation not found'')
      (case message other_error of None \<Rightarrow> [] | Some m \<Rightarrow> m)"
    using other_does_not_match by (simp add: other_error_def)
  have c: "\<exists>w'. activate host0 [change_path, change_enable] world0 = Settled (Inr (GitExtension None), w')"
    using activate_recovers_only_from_missing_git
        [of not_found_error host0 "snd (createModel host0 ?r)" ?r world0
            "[change_path, change_enable]" "[change_path]" change_enable "[]",
          unfolded Let_def, THEN conjunct2, THEN conjunct2, THEN mp, OF pre0]
    by (simp only: m0 if_True createGitExtension_def) blast
  have d: "\<exists>w'. activate host2 [change_path, change_enable] world0 = Settled (Inl other_error, w')"
    using activate_recovers_only_from_missing_git
        [of other_error host2 "snd (createModel host2 ?r)" ?r world0
            "[change_path, change_enable]" "[change_path]" change_enable "[]",
          unfolded Let_def, THEN conjunct2, THEN conjunct2, THEN mp, OF pre2]
    by (simp only: m2 if_False) blast
  from a b c d world_enabled_enabled world0_not_enabled
    createModel_host0[of ?w] createModel_host2[of ?w]
  show ?thesis by blast
qed

theorem activation_waits_for_enablement_witness:
  "activate host0 [change_path] world0 = Suspended (snd (activate_prologue world0)) \<and>
   activate host0 [change_path, change_enable] world0 =
     Settled (activate_try host0 ((snd (activate_prologue world0))
        \<lparr>bool_settings := bool_settings_then change_enable,
          string_settings := string_settings_then change_enable\<rparr>)) \<and>
   activate host0 [change_path] world_enabled =
     Settled (activate_try host0 (snd (activate_prologue world_enabled)))"
proof -
  have a: "activate host0 [change_path] world0 = Suspended (snd (activate_prologue world0))"
    using activation_waits_for_enablement[of world0 host0 "[change_path]"]
      world0_not_enabled change_path_not_enables
    by simp
  have b: "activate host0 [change_path, change_enable] world0 =
     Settled (activate_try host0 ((snd (activate_prologue world0))
        \<lparr>bool_settings := bool_settings_then change_enable,
          string_settings := string_settings_then change_enable\<rparr>))"
    using activation_waits_for_enablement[of world0 host0 "[change_path, change_enable]"
        "[change_path]" change_enable "[]"]
      world0_not_enabled change_path_not_enables change_enable_enables
    by simp
  have c: "activate host0 [change_path] world_enabled =
     Settled (activate_try host0 (snd (activate_prologue world_enabled)))"
    using activation_waits_for_enablement[of world_enabled host0 "[change_path]"]
      world_enabled_enabled
    by simp
  from a b c show ?thesis by simp
qed

subsection \<open>Two runs of the whole module\<close>

lemma warnAboutMissingGit_prompts:
  assumes "bool_settings w (js ''ignoreMissingGitWarning'') \<noteq> Some True"
    "workspaceFolders h = Some folders" "\<exists>f \<in> set folders. qualifies h f"
  shows "\<exists>w' msg items rest. warnAboutMissingGit h w = (Inr (), w') \<and>
           trace w' = trace w @ ShowWarningMessage msg items # rest \<and> prompts rest = []"
  using assms
  by (simp add: warnAboutMissingGit_def config_get_bool_def await_def ret_def
      promise_all_isGitRepository showWarningMessage_def executeCommand_def emit_def
      config_update_def Let_def prompts_def list_all_iff)

lemma activate_with_legacy_git:
  "\<exists>w'. activate host1 [] world_enabled =
     Settled (Inr (GitExtension (Some (Model \<lparr>path = js ''/usr/bin/git'', version = js ''1.9.1''\<rparr>))), w') \<and>
     length (prompts (new_events world_enabled w')) = 1"
  by (simp add: activate_enabled world_enabled_enabled activate_prologue_run activate_try_def
      try_catch_def createModel_def await_def ret_def emit_def config_get_string_def
      findGit_logged_def askpass_env_def executeCommand_def checkGitVersion_def
      config_get_bool_def showWarningMessage_def host1_def host0_def world_enabled_def world0_def
      createGitExtension_def test_leading_01_def js_def new_events_def prompts_def localize_def
      Let_def)

end
